theory Spec2Isabelle
  imports Main "HOL-Library.Word"
begin

section \<open>The RDDrone UWB driver: serial framing and the two-phase session\<close>

text \<open>
  A shallow embedding of \<^verbatim>\<open>src/drivers/uwb/rddrone/rddrone.cpp\<close> and
  \<^verbatim>\<open>rddrone.h\<close>. The driver talks to the UWB module over a serial line:
  it sends a grid-survey command until one whole survey message has been received,
  publishes it, sends the begin-ranging command, and then receives distance messages
  until the host asks it to stop, when it sends the stop-ranging command.

  Everything outside the driver is an input of the model: what the serial line
  delivers and when, what each \<^verbatim>\<open>write()\<close> returns, and what each
  \<^verbatim>\<open>should_exit()\<close> poll returns. Everything the driver does to the
  outside is recorded: the buffers handed to \<^verbatim>\<open>write()\<close>, the
  published records, the performance counters and the console messages.
\<close>

subsection \<open>Constants of the source\<close>

type_synonym byte = "8 word"

text \<open>\<^verbatim>\<open>#define BYTE_TIMEOUT_US 5000\<close>, \<^verbatim>\<open>#define MESSAGE_TIMEOUT_S 10\<close>,
  \<^verbatim>\<open>#define MESSAGE_TIMEOUT_US 1\<close>.\<close>

definition BYTE_TIMEOUT_US :: nat where
  "BYTE_TIMEOUT_US = 5000"

definition MESSAGE_TIMEOUT_S :: nat where
  "MESSAGE_TIMEOUT_S = 10"

definition MESSAGE_TIMEOUT_US :: nat where
  "MESSAGE_TIMEOUT_US = 1"

text \<open>A \<^verbatim>\<open>struct timeval {tv_sec, tv_usec}\<close>, as its length in microseconds.\<close>

definition timeval :: "nat \<Rightarrow> nat \<Rightarrow> nat" where
  "timeval tv_sec tv_usec = tv_sec * 1000000 + tv_usec"

text \<open>
  C aggregate initialisation of a \<^verbatim>\<open>uint8_t[n]\<close>: the listed elements, then zeros.
  \<^verbatim>\<open>const uint8_t CMD_STOP_RANGING[20] = {0x8e, 0x00, 0x11, 0x00};\<close>
  \<^verbatim>\<open>const uint8_t CMD_PURE_RANGING[20] = {0x8e, 0x00, 0x11, 0x02};\<close>
\<close>

definition array_init :: "nat \<Rightarrow> byte list \<Rightarrow> byte list" where
  "array_init n xs = xs @ replicate (n - length xs) 0"

definition CMD_STOP_RANGING :: "byte list" where
  "CMD_STOP_RANGING = array_init 20 [0x8e, 0x00, 0x11, 0x00]"

definition CMD_PURE_RANGING :: "byte list" where
  "CMD_PURE_RANGING = array_init 20 [0x8e, 0x00, 0x11, 0x02]"

text \<open>
  Modelled from the spec: \<^verbatim>\<open>CMD_GRID_SURVEY\<close> and \<^verbatim>\<open>CMD_DISTANCE_RESULT\<close>, the
  two commands that \<^verbatim>\<open>run()\<close> writes besides \<^verbatim>\<open>CMD_STOP_RANGING\<close>, are not
  declared in the sources (the header at hand declares the stop and the pure-ranging
  command only). The spec has every outbound command frame as "fixed 4 meaningful bytes,
  padded to a fixed total length with a zero-filled identifier field"; the header has
  the total length as 20 and the identifier as 16 bytes. The four meaningful bytes of a
  command that is not declared are not known: they are the argument.
\<close>

definition command_frame :: "byte \<times> byte \<times> byte \<times> byte \<Rightarrow> byte list" where
  "command_frame prefix = (case prefix of (b0, b1, b2, b3) \<Rightarrow> array_init 20 [b0, b1, b2, b3])"

text \<open>
  Modelled from the spec: the declarations of \<^verbatim>\<open>grid_msg_t\<close> and
  \<^verbatim>\<open>distance_msg_t\<close> are missing from the sources (the header at hand declares
  only \<^verbatim>\<open>position_msg_t\<close>). The spec gives a grid survey message 163 bytes and a
  distance result message 51 bytes (so do the comments of \<^verbatim>\<open>run()\<close>), each
  terminated by its stop byte: \<^verbatim>\<open>stop\<close> is the last byte of the structure.
\<close>

definition sizeof_grid_msg :: nat where
  "sizeof_grid_msg = 163"

definition sizeof_distance_msg :: nat where
  "sizeof_distance_msg = 51"

definition stop_byte :: "byte list \<Rightarrow> byte" where
  "stop_byte msg = msg ! (length msg - 1)"

subsection \<open>The serial line\<close>

text \<open>
  The future of the serial line is a list of events. \<open>Ready gap r\<close>: \<open>gap\<close>
  microseconds from now the descriptor becomes readable, and the read that follows
  gives \<open>r\<close>: some bytes (none: \<^verbatim>\<open>read()\<close> returns 0) or a failure
  (\<^verbatim>\<open>read()\<close> returns -1). \<open>SelectFail\<close>: the next \<^verbatim>\<open>select()\<close> returns
  -1. An empty list is a line that stays silent.
\<close>

datatype read_result = Bytes "byte list" | ReadFail

datatype uart_event = Ready nat read_result | SelectFail

text \<open>
  \<^verbatim>\<open>select(_uart + 1, &_uart_set, nullptr, nullptr, &_uart_timeout)\<close>: positive
  when the descriptor becomes readable before the timeout has passed, 0 when the
  timeout passes first (the time waited is taken off what remains of the gap).
\<close>

fun uart_select :: "nat \<Rightarrow> uart_event list \<Rightarrow> int \<times> uart_event list" where
  "uart_select tmo [] = (0, [])"
| "uart_select tmo (SelectFail # rest) = (- 1, rest)"
| "uart_select tmo (Ready gap r # rest) =
     (if gap < tmo then (1, Ready 0 r # rest) else (0, Ready (gap - tmo) r # rest))"

text \<open>
  \<^verbatim>\<open>read(_uart, &buffer[loc], n)\<close>: at most \<open>n\<close> of the bytes at hand; what
  does not fit stays readable. The result is the return value, the bytes stored and
  the rest of the line.
\<close>

fun uart_read :: "nat \<Rightarrow> uart_event list \<Rightarrow> int \<times> byte list \<times> uart_event list" where
  "uart_read n (Ready gap (Bytes bs) # rest) =
     (int (length (take n bs)), take n bs,
      if drop n bs = [] then rest else Ready 0 (Bytes (drop n bs)) # rest)"
| "uart_read n (Ready gap ReadFail # rest) = (- 1, [], rest)"
| "uart_read n ln = (- 1, [], ln)"

text \<open>
  \<open>us\<close> microseconds pass with the driver not looking at the line: what was to
  arrive within them is at hand afterwards, and what was to arrive later is nearer.
\<close>

fun elapse :: "nat \<Rightarrow> uart_event list \<Rightarrow> uart_event list" where
  "elapse us [] = []"
| "elapse us (SelectFail # rest) = SelectFail # elapse us rest"
| "elapse us (Ready gap r # rest) =
     (if us < gap then Ready (gap - us) r # rest else Ready 0 r # elapse (us - gap) rest)"

text \<open>\<open>store buf loc data\<close>: \<open>data\<close> written into \<open>buf\<close> from offset \<open>loc\<close> on.\<close>

definition store :: "byte list \<Rightarrow> nat \<Rightarrow> byte list \<Rightarrow> byte list" where
  "store buf loc data = take loc buf @ data @ drop (loc + length data) buf"

subsection \<open>Receiving one message\<close>

text \<open>
  The state of one framing attempt: the fill cursor (\<^verbatim>\<open>buffer_location\<close>), the
  message buffer, the serial line, and a log of the \<^verbatim>\<open>read()\<close> calls made: the
  cursor at the call, the count asked for, the value returned.
\<close>

record attempt =
  cursor :: nat
  buffer :: "byte list"
  line :: "uart_event list"
  reads :: "(nat \<times> nat \<times> int) list"

text \<open>
  The accumulation loop, which \<^verbatim>\<open>run()\<close> has twice (once per message type):
  \<^verbatim>\<open>
  while (buffer_location < sizeof(msg)
         && select(_uart + 1, &_uart_set, nullptr, nullptr, &_uart_timeout) > 0) {
      int bytes_read = read(_uart, &buffer[buffer_location], sizeof(msg) - buffer_location);
      if (bytes_read > 0) { buffer_location += bytes_read; } else { break; }
      FD_ZERO(&_uart_set); FD_SET(_uart, &_uart_set);
      _uart_timeout.tv_sec = 0;
      _uart_timeout.tv_usec = BYTE_TIMEOUT_US;
  }
  \<close>
  \<open>sz\<close> is \<^verbatim>\<open>sizeof(msg)\<close> and \<open>tmo\<close> the value of \<^verbatim>\<open>_uart_timeout\<close>.
\<close>

function receive :: "nat \<Rightarrow> nat \<Rightarrow> attempt \<Rightarrow> attempt" where
  "receive sz tmo a =
     (if cursor a < sz then
        (case uart_select tmo (line a) of
           (ready, rx1) \<Rightarrow>
             if ready > 0 then
               (case uart_read (sz - cursor a) rx1 of
                  (bytes_read, data, rx2) \<Rightarrow>
                    if bytes_read > 0 then
                      receive sz (timeval 0 BYTE_TIMEOUT_US)
                        \<lparr>cursor = cursor a + nat bytes_read,
                         buffer = store (buffer a) (cursor a) data,
                         line = rx2,
                         reads = reads a @ [(cursor a, sz - cursor a, bytes_read)]\<rparr>
                    else a\<lparr>line := rx2,
                           reads := reads a @ [(cursor a, sz - cursor a, bytes_read)]\<rparr>)
             else a\<lparr>line := rx1\<rparr>)
      else a)"
  by pat_completeness auto
termination
  by (relation "measure (\<lambda>(sz, tmo, a). sz - cursor a)") auto

declare receive.simps [simp del]

text \<open>
  One framing attempt: \<^verbatim>\<open>_uart_timeout\<close> is set to
  \<^verbatim>\<open>{MESSAGE_TIMEOUT_S, MESSAGE_TIMEOUT_US}\<close>, the cursor to 0, and the loop runs. The
  buffer is a member of the driver and keeps its bytes from one attempt to the next.
\<close>

definition start_attempt :: "nat \<Rightarrow> byte list \<Rightarrow> uart_event list \<Rightarrow> attempt" where
  "start_attempt sz buf ln =
     receive sz (timeval MESSAGE_TIMEOUT_S MESSAGE_TIMEOUT_US)
       \<lparr>cursor = 0, buffer = buf, line = ln, reads = []\<rparr>"

subsection \<open>The driver\<close>

datatype log_msg =
    ERR_only_wrote int nat
  | WARN_not_responding
  | GRID_FOUND

text \<open>
  What the driver does on the line, for the order of things: a \<^verbatim>\<open>write()\<close> of some
  bytes, noted with the polls of \<^verbatim>\<open>should_exit()\<close> that were still to come when
  it was made; a framing attempt, noted with the size awaited and the cursor at its end.
\<close>

datatype event = Wrote "byte list" "bool list" | Attempted nat nat

text \<open>
  Inputs: \<open>rx\<close> (the serial line), \<open>write_results\<close> (what the coming
  \<^verbatim>\<open>write()\<close> calls return; a full write when the list is used up),
  \<open>exit_polls\<close> (what the coming \<^verbatim>\<open>should_exit()\<close> calls return; false when
  the list is used up). Outputs: \<open>writes\<close> (the buffers handed to
  \<^verbatim>\<open>write()\<close>), the published records, the two performance counters, the
  console. A published record is kept as the message its fields are copied from.
  \<open>journal\<close> is not a member of the driver: it keeps the writes and the framing
  attempts in the order in which they were made.
\<close>

record driver =
  rx :: "uart_event list"
  write_results :: "int list"
  exit_polls :: "bool list"
  writes :: "byte list list"
  grid_survey_msg :: "byte list"
  distance_result_msg :: "byte list"
  uwb_grid_pub :: "byte list list"
  uwb_distance_pub :: "byte list list"
  read_count_perf :: nat
  read_err_perf :: nat
  console :: "log_msg list"
  journal :: "event list"

definition uart_write :: "byte list \<Rightarrow> driver \<Rightarrow> int \<times> driver" where
  "uart_write bytes w =
     (case write_results w of
        [] \<Rightarrow>
          (int (length bytes),
           w\<lparr>writes := writes w @ [bytes],
             journal := journal w @ [Wrote bytes (exit_polls w)]\<rparr>)
      | r # rs \<Rightarrow>
          (r, w\<lparr>writes := writes w @ [bytes],
                journal := journal w @ [Wrote bytes (exit_polls w)],
                write_results := rs\<rparr>))"

text \<open>
  \<^verbatim>\<open>
  int written = write(_uart, CMD, sizeof(CMD));
  if (written < (int) sizeof(CMD)) { PX4_ERR("Only wrote %d bytes out of %d.", ...); }
  \<close>
\<close>

definition send_command :: "byte list \<Rightarrow> driver \<Rightarrow> driver" where
  "send_command cmd w =
     (case uart_write cmd w of
        (written, w1) \<Rightarrow>
          if written < int (length cmd)
          then w1\<lparr>console := console w1 @ [ERR_only_wrote written (length cmd)]\<rparr>
          else w1)"

definition should_exit :: "driver \<Rightarrow> bool \<times> driver" where
  "should_exit w =
     (case exit_polls w of
        [] \<Rightarrow> (False, w)
      | b # bs \<Rightarrow> (b, w\<lparr>exit_polls := bs\<rparr>))"

subsubsection \<open>Grid survey\<close>

definition grid_accumulate :: "driver \<Rightarrow> nat \<times> driver" where
  "grid_accumulate w =
     (let a = start_attempt sizeof_grid_msg (grid_survey_msg w) (rx w)
      in (cursor a,
          w\<lparr>grid_survey_msg := buffer a, rx := line a,
            journal := journal w @ [Attempted sizeof_grid_msg (cursor a)]\<rparr>))"

text \<open>
  One round of \<^verbatim>\<open>while (grid_found == 0)\<close>: the command is written, a message is
  awaited, and
  \<^verbatim>\<open>grid_found = (grid_buffer_location == sizeof(grid_msg_t) && _grid_survey_msg.stop == 0x1b);\<close>
  The command \<^verbatim>\<open>CMD_GRID_SURVEY\<close> is not declared in the sources at hand; it is
  the parameter \<open>cmd_grid_survey\<close>.
\<close>

definition survey_iter :: "byte list \<Rightarrow> driver \<Rightarrow> bool \<times> driver" where
  "survey_iter cmd_grid_survey w =
     (case grid_accumulate (send_command cmd_grid_survey w) of
        (grid_buffer_location, w1) \<Rightarrow>
          (grid_buffer_location = sizeof_grid_msg \<and> stop_byte (grid_survey_msg w1) = 0x1b,
           w1\<lparr>read_count_perf := read_count_perf w1 + 1\<rparr>))"

text \<open>The loop may run for ever: \<open>None\<close> is "not left within \<open>fuel\<close> rounds".\<close>

fun survey_loop :: "nat \<Rightarrow> byte list \<Rightarrow> driver \<Rightarrow> driver option" where
  "survey_loop 0 cmd_grid_survey w = None"
| "survey_loop (Suc fuel) cmd_grid_survey w =
     (case survey_iter cmd_grid_survey w of
        (grid_found, w1) \<Rightarrow>
          if grid_found then Some w1 else survey_loop fuel cmd_grid_survey w1)"

text \<open>
  After the loop: the fields of the grid are copied out of \<^verbatim>\<open>_grid_survey_msg\<close>
  and published, \<^verbatim>\<open>printf("GRID FOUND.")\<close>, and \<^verbatim>\<open>sleep(1)\<close>.
\<close>

definition publish_grid :: "driver \<Rightarrow> driver" where
  "publish_grid w =
     w\<lparr>uwb_grid_pub := uwb_grid_pub w @ [grid_survey_msg w],
       console := console w @ [GRID_FOUND]\<rparr>"

definition sleep :: "nat \<Rightarrow> driver \<Rightarrow> driver" where
  "sleep seconds w = w\<lparr>rx := elapse (timeval seconds 0) (rx w)\<rparr>"

subsubsection \<open>Ranging\<close>

definition dist_accumulate :: "driver \<Rightarrow> nat \<times> driver" where
  "dist_accumulate w =
     (let a = start_attempt sizeof_distance_msg (distance_result_msg w) (rx w)
      in (cursor a,
          w\<lparr>distance_result_msg := buffer a, rx := line a,
            journal := journal w @ [Attempted sizeof_distance_msg (cursor a)]\<rparr>))"

text \<open>
  The body of \<^verbatim>\<open>while (!should_exit())\<close>:
  \<^verbatim>\<open>
  perf_count(_read_count_perf);
  bool ok = (buffer_location == sizeof(distance_msg_t) && _distance_result_msg.stop == 0x1b);
  if (ok) { ...; _uwb_distance_pub.publish(_uwb_distance); }
  else {
      perf_count(_read_err_perf);
      if (buffer_location == 0) { PX4_WARN("UWB module is not responding."); }
  }
  \<close>
\<close>

definition ranging_iter :: "driver \<Rightarrow> driver" where
  "ranging_iter w =
     (case dist_accumulate w of
        (buffer_location, w1) \<Rightarrow>
          let w2 = w1\<lparr>read_count_perf := read_count_perf w1 + 1\<rparr>;
              ok = (buffer_location = sizeof_distance_msg
                    \<and> stop_byte (distance_result_msg w2) = 0x1b)
          in if ok then w2\<lparr>uwb_distance_pub := uwb_distance_pub w2 @ [distance_result_msg w2]\<rparr>
             else let w3 = w2\<lparr>read_err_perf := read_err_perf w2 + 1\<rparr>
                  in if buffer_location = 0
                     then w3\<lparr>console := console w3 @ [WARN_not_responding]\<rparr>
                     else w3)"

fun ranging_loop :: "nat \<Rightarrow> driver \<Rightarrow> driver option" where
  "ranging_loop 0 w = None"
| "ranging_loop (Suc fuel) w =
     (case should_exit w of
        (stop, w1) \<Rightarrow> if stop then Some w1 else ranging_loop fuel (ranging_iter w1))"

subsubsection \<open>The whole of \<^verbatim>\<open>RDDrone::run()\<close>\<close>

text \<open>
  The survey loop, the publication of the grid, the pause, the begin-ranging command
  (\<^verbatim>\<open>CMD_DISTANCE_RESULT\<close>, not declared in the sources at hand: the parameter
  \<open>cmd_distance_result\<close>), the ranging loop, and the stop command
  \<^verbatim>\<open>write(_uart, &CMD_STOP_RANGING, sizeof(CMD_STOP_RANGING))\<close>.
\<close>

definition run :: "nat \<Rightarrow> byte list \<Rightarrow> byte list \<Rightarrow> driver \<Rightarrow> driver option" where
  "run fuel cmd_grid_survey cmd_distance_result w =
     (case survey_loop fuel cmd_grid_survey w of
        None \<Rightarrow> None
      | Some w1 \<Rightarrow>
          (case ranging_loop fuel
                  (send_command cmd_distance_result (sleep 1 (publish_grid w1))) of
             None \<Rightarrow> None
           | Some w2 \<Rightarrow> Some (send_command CMD_STOP_RANGING w2)))"

subsection \<open>Construction\<close>

datatype speed_t = B9600 | B19200 | B38400 | B57600 | B115200

definition DEFAULT_BAUD :: speed_t where
  "DEFAULT_BAUD = B115200"

definition int_to_speed :: "int \<Rightarrow> speed_t" where
  "int_to_speed baud =
     (if baud = 9600 then B9600
      else if baud = 19200 then B19200
      else if baud = 38400 then B38400
      else if baud = 57600 then B57600
      else if baud = 115200 then B115200
      else DEFAULT_BAUD)"

text \<open>
  The locals of \<^verbatim>\<open>instantiate\<close>: \<^verbatim>\<open>device_name\<close> (a pointer, null at first),
  \<^verbatim>\<open>error_flag\<close>, \<^verbatim>\<open>baudrate\<close>.
\<close>

record options =
  device_name :: "string option"
  error_flag :: bool
  baudrate :: int

text \<open>
  The option loop. \<^verbatim>\<open>px4_getopt\<close> and \<^verbatim>\<open>px4_get_parameter_value\<close> belong to
  the platform: the loop is given the successive results of \<^verbatim>\<open>px4_getopt\<close> (the
  option character and its argument) and the function \<open>get_parameter_value\<close>, which
  maps the argument and the present value of \<^verbatim>\<open>baudrate\<close> to its new value.
\<close>

fun parse_options :: "(string \<Rightarrow> int \<Rightarrow> int) \<Rightarrow> (char \<times> string) list \<Rightarrow> options \<Rightarrow> options" where
  "parse_options get_parameter_value [] s = s"
| "parse_options get_parameter_value ((ch, option_arg) # rest) s =
     parse_options get_parameter_value rest
       (if ch = CHR ''d'' then s\<lparr>device_name := Some option_arg\<rparr>
        else if ch = CHR ''b'' then s\<lparr>baudrate := get_parameter_value option_arg (baudrate s)\<rparr>
        else s\<lparr>error_flag := True\<rparr>)"

text \<open>\<open>None\<close> is \<^verbatim>\<open>nullptr\<close>; otherwise the arguments of the constructor.\<close>

definition instantiate ::
  "(string \<Rightarrow> int \<Rightarrow> int) \<Rightarrow> (char \<times> string) list \<Rightarrow> (string option \<times> speed_t) option" where
  "instantiate get_parameter_value opts =
     (let s = parse_options get_parameter_value opts
                \<lparr>device_name = None, error_flag = False, baudrate = 0\<rparr>;
          s1 = (if \<not> error_flag s \<and> device_name s = None then s\<lparr>error_flag := True\<rparr> else s);
          s2 = (if \<not> error_flag s1 \<and> baudrate s1 = 0 then s1\<lparr>error_flag := True\<rparr> else s1)
      in if error_flag s2 then None
         else Some (device_name s2, int_to_speed (baudrate s2)))"

subsection \<open>Notions used to state the properties\<close>

text \<open>
  A log of \<^verbatim>\<open>read()\<close> calls is in order for a message of \<open>sz\<close> bytes, from
  cursor \<open>c\<close> to cursor \<open>c_end\<close>, when every call is made at the cursor reached so
  far, with the cursor short of \<open>sz\<close>, asks for what is left of the message, returns
  no more than it asked for, and moves the cursor by the bytes it returned.
\<close>

fun log_ok :: "nat \<Rightarrow> nat \<Rightarrow> (nat \<times> nat \<times> int) list \<Rightarrow> nat \<Rightarrow> bool" where
  "log_ok sz c [] c_end = (c_end = c)"
| "log_ok sz c ((c', asked, bytes_read) # calls) c_end =
     (c' = c \<and> c < sz \<and> asked = sz - c \<and> bytes_read \<le> int asked
      \<and> log_ok sz (c + nat bytes_read) calls c_end)"

text \<open>
  A frame that arrives one byte at a time: byte \<open>i\<close> becomes readable \<open>gaps ! i\<close>
  microseconds after the byte before it (the first: after the attempt has begun).
\<close>

definition byte_by_byte :: "nat list \<Rightarrow> byte list \<Rightarrow> uart_event list" where
  "byte_by_byte gaps frame = map (\<lambda>(gap, b). Ready gap (Bytes [b])) (zip gaps frame)"

text \<open>
  The attempt that follows attempt \<open>a\<close>: the cursor is back at 0, the buffer and
  the line are as \<open>a\<close> left them.
\<close>

definition next_attempt :: "nat \<Rightarrow> attempt \<Rightarrow> attempt" where
  "next_attempt sz a = start_attempt sz (buffer a) (line a)"

text \<open>What holds of an attempt at a message of \<open>sz\<close> bytes at every turn of the loop.\<close>

definition attempt_inv :: "nat \<Rightarrow> attempt \<Rightarrow> bool" where
  "attempt_inv sz a =
     (cursor a \<le> sz \<and> length (buffer a) = sz \<and> log_ok sz 0 (reads a) (cursor a))"



text \<open>The driver after \<open>n\<close> rounds of the survey loop.\<close>

primrec survey_attempts :: "nat \<Rightarrow> byte list \<Rightarrow> driver \<Rightarrow> driver" where
  "survey_attempts 0 cmd_grid_survey w = w"
| "survey_attempts (Suc n) cmd_grid_survey w =
     snd (survey_iter cmd_grid_survey (survey_attempts n cmd_grid_survey w))"

subsection \<open>Inputs used as examples\<close>

text \<open>A driver that has done nothing yet, on a silent line, with its two buffers zeroed.\<close>

definition idle_driver :: driver where
  "idle_driver =
     \<lparr>rx = [], write_results = [], exit_polls = [], writes = [],
      grid_survey_msg = replicate 163 0, distance_result_msg = replicate 51 0,
      uwb_grid_pub = [], uwb_distance_pub = [],
      read_count_perf = 0, read_err_perf = 0, console = [], journal = []\<rparr>"

text \<open>
  A stand-in for the grid-survey command, which the sources at hand do not declare
  (the prefix is that of \<^verbatim>\<open>CMD_START_RANGING\<close>, which the header has in a comment).
\<close>

definition example_grid_command :: "byte list" where
  "example_grid_command = array_init 20 [0x8e, 0x00, 0x11, 0x01]"

text \<open>
  A whole session: the survey message is at hand at once, the line is silent from
  then on, and the second poll of \<^verbatim>\<open>should_exit()\<close> says stop (a third would, too).
\<close>

definition example_session :: driver where
  "example_session =
     idle_driver\<lparr>rx := [Ready 0 (Bytes (replicate 162 0 @ [0x1b]))],
                 exit_polls := [False, True, True]\<rparr>"

definition example_outcome :: driver where
  "example_outcome =
     idle_driver\<lparr>exit_polls := [True],
        writes := [example_grid_command, CMD_PURE_RANGING, CMD_STOP_RANGING],
        grid_survey_msg := replicate 162 0 @ [0x1b],
        uwb_grid_pub := [replicate 162 0 @ [0x1b]],
        read_count_perf := 2, read_err_perf := 1,
        console := [GRID_FOUND, WARN_not_responding],
        journal := [Wrote example_grid_command [False, True, True], Attempted 163 163,
                    Wrote CMD_PURE_RANGING [False, True, True], Attempted 51 0,
                    Wrote CMD_STOP_RANGING [True]]\<rparr>"

text \<open>
  Five single bytes and then a whole survey message, each 6 ms after what came before:
  each of the first five survey attempts reads one byte and is given up when nothing
  more has come within \<^verbatim>\<open>BYTE_TIMEOUT_US\<close>; the sixth reads the message.
\<close>

definition five_aborted :: driver where
  "five_aborted =
     idle_driver\<lparr>rx := [Ready 6000 (Bytes [0x8e]), Ready 6000 (Bytes [0x8e]),
                        Ready 6000 (Bytes [0x8e]), Ready 6000 (Bytes [0x8e]),
                        Ready 6000 (Bytes [0x8e]),
                        Ready 6000 (Bytes (replicate 162 0 @ [0x1b]))]\<rparr>"

text \<open>A \<^verbatim>\<open>px4_get_parameter_value\<close> that knows two numbers and gives 0 otherwise.\<close>

definition decimal_baud :: "string \<Rightarrow> int \<Rightarrow> int" where
  "decimal_baud arg old =
     (if arg = ''57600'' then 57600 else if arg = ''250000'' then 250000 else 0)"

section \<open>Properties\<close>

subsection \<open>The serial line and the accumulation loop\<close>

lemma uart_read_le: "uart_read n ln = (k, data, ln') \<Longrightarrow> k \<le> int n"
  by (induction n ln rule: uart_read.induct) auto

lemma uart_read_data: "uart_read n ln = (k, data, ln') \<Longrightarrow> 0 < k \<Longrightarrow> length data = nat k"
  by (induction n ln rule: uart_read.induct) auto

lemma length_store: "loc + length data \<le> length buf \<Longrightarrow> length (store buf loc data) = length buf"
  by (simp add: store_def)

text \<open>The four ways through one evaluation of the loop.\<close>

lemma receive_full: "\<not> cursor a < sz \<Longrightarrow> receive sz tmo a = a"
  by (subst receive.simps) simp

lemma receive_timeout:
  "cursor a < sz \<Longrightarrow> uart_select tmo (line a) = (r, ln1) \<Longrightarrow> \<not> 0 < r \<Longrightarrow>
   receive sz tmo a = a\<lparr>line := ln1\<rparr>"
  by (subst receive.simps) simp

lemma receive_break:
  "cursor a < sz \<Longrightarrow> uart_select tmo (line a) = (r, ln1) \<Longrightarrow> 0 < r \<Longrightarrow>
   uart_read (sz - cursor a) ln1 = (k, data, ln2) \<Longrightarrow> \<not> 0 < k \<Longrightarrow>
   receive sz tmo a = a\<lparr>line := ln2, reads := reads a @ [(cursor a, sz - cursor a, k)]\<rparr>"
  by (subst receive.simps) simp

lemma receive_step:
  "cursor a < sz \<Longrightarrow> uart_select tmo (line a) = (r, ln1) \<Longrightarrow> 0 < r \<Longrightarrow>
   uart_read (sz - cursor a) ln1 = (k, data, ln2) \<Longrightarrow> 0 < k \<Longrightarrow>
   receive sz tmo a =
     receive sz (timeval 0 BYTE_TIMEOUT_US)
       \<lparr>cursor = cursor a + nat k, buffer = store (buffer a) (cursor a) data,
        line = ln2, reads = reads a @ [(cursor a, sz - cursor a, k)]\<rparr>"
  by (subst receive.simps) simp

text \<open>
  A proof rule for the loop: an invariant \<open>I\<close> kept by every round that goes on, and
  a postcondition \<open>Q\<close> met at each of the three exits.
\<close>

lemma receive_rule:
  assumes init: "I a"
    and step: "\<And>a tmo r ln1 k data ln2.
        I a \<Longrightarrow> cursor a < sz \<Longrightarrow> uart_select tmo (line a) = (r, ln1) \<Longrightarrow> 0 < r \<Longrightarrow>
        uart_read (sz - cursor a) ln1 = (k, data, ln2) \<Longrightarrow> 0 < k \<Longrightarrow>
        I \<lparr>cursor = cursor a + nat k, buffer = store (buffer a) (cursor a) data,
           line = ln2, reads = reads a @ [(cursor a, sz - cursor a, k)]\<rparr>"
    and full: "\<And>a. I a \<Longrightarrow> \<not> cursor a < sz \<Longrightarrow> Q a"
    and timeout: "\<And>a tmo r ln1.
        I a \<Longrightarrow> cursor a < sz \<Longrightarrow> uart_select tmo (line a) = (r, ln1) \<Longrightarrow> \<not> 0 < r \<Longrightarrow>
        Q (a\<lparr>line := ln1\<rparr>)"
    and break: "\<And>a tmo r ln1 k data ln2.
        I a \<Longrightarrow> cursor a < sz \<Longrightarrow> uart_select tmo (line a) = (r, ln1) \<Longrightarrow> 0 < r \<Longrightarrow>
        uart_read (sz - cursor a) ln1 = (k, data, ln2) \<Longrightarrow> \<not> 0 < k \<Longrightarrow>
        Q (a\<lparr>line := ln2, reads := reads a @ [(cursor a, sz - cursor a, k)]\<rparr>)"
  shows "Q (receive sz tmo a)"
  using init
proof (induction "sz - cursor a" arbitrary: a tmo rule: less_induct)
  case less
  show ?case
  proof (cases "cursor a < sz")
    case False
    with less.prems full show ?thesis by (simp add: receive_full)
  next
    case True
    obtain r ln1 where sel: "uart_select tmo (line a) = (r, ln1)"
      by (cases "uart_select tmo (line a)")
    show ?thesis
    proof (cases "0 < r")
      case False
      with True sel less.prems timeout show ?thesis by (simp add: receive_timeout)
    next
      case ready: True
      obtain k data ln2 where rd: "uart_read (sz - cursor a) ln1 = (k, data, ln2)"
        by (cases "uart_read (sz - cursor a) ln1") auto
      show ?thesis
      proof (cases "0 < k")
        case False
        with True sel ready rd less.prems break [of a tmo r ln1 k data ln2] show ?thesis
          by (simp add: receive_break)
      next
        case pos: True
        let ?a' = "\<lparr>cursor = cursor a + nat k, buffer = store (buffer a) (cursor a) data,
           line = ln2, reads = reads a @ [(cursor a, sz - cursor a, k)]\<rparr>"
        have inv: "I ?a'"
          using step [OF less.prems True sel ready rd pos] .
        have "sz - cursor ?a' < sz - cursor a"
          using True pos by simp
        then have "Q (receive sz (timeval 0 BYTE_TIMEOUT_US) ?a')"
          using inv by (rule less.hyps)
        with True sel ready rd pos show ?thesis
          by (simp add: receive_step)
      qed
    qed
  qed
qed

lemmas example_simps =
  start_attempt_def receive.simps timeval_def sizeof_distance_msg_def sizeof_grid_msg_def
  MESSAGE_TIMEOUT_S_def MESSAGE_TIMEOUT_US_def BYTE_TIMEOUT_US_def store_def

lemmas driver_simps =
  idle_driver_def send_command_def uart_write_def should_exit_def grid_accumulate_def
  dist_accumulate_def survey_iter_def ranging_iter_def publish_grid_def sleep_def run_def
  stop_byte_def Let_def

subsection \<open>The fill cursor stays within the message\<close>

lemma log_ok_append:
  "log_ok sz c0 calls c \<Longrightarrow> c < sz \<Longrightarrow> k \<le> int (sz - c) \<Longrightarrow>
   log_ok sz c0 (calls @ [(c, sz - c, k)]) (c + nat k)"
  by (induction calls arbitrary: c0) auto

lemma receive_inv: "attempt_inv sz a \<Longrightarrow> attempt_inv sz (receive sz tmo a)"
proof (rule receive_rule [where I = "attempt_inv sz" and Q = "attempt_inv sz"])
  fix a tmo r ln1 k data ln2
  assume inv: "attempt_inv sz a" and lt: "cursor a < sz"
    and rd: "uart_read (sz - cursor a) ln1 = (k, data, ln2)"
  have le: "k \<le> int (sz - cursor a)" using uart_read_le [OF rd] .
  {
    assume pos: "0 < k"
    have len: "length data = nat k" using uart_read_data [OF rd pos] .
    from le lt pos have fit: "cursor a + nat k \<le> sz" by linarith
    with inv len have "length (store (buffer a) (cursor a) data) = sz"
      by (simp add: attempt_inv_def length_store)
    moreover have "log_ok sz 0 (reads a @ [(cursor a, sz - cursor a, k)]) (cursor a + nat k)"
      using inv lt le by (simp add: attempt_inv_def log_ok_append)
    ultimately show "attempt_inv sz \<lparr>cursor = cursor a + nat k,
        buffer = store (buffer a) (cursor a) data, line = ln2,
        reads = reads a @ [(cursor a, sz - cursor a, k)]\<rparr>"
      using fit by (simp add: attempt_inv_def)
  }
  {
    assume neg: "\<not> 0 < k"
    have "log_ok sz 0 (reads a @ [(cursor a, sz - cursor a, k)]) (cursor a + nat k)"
      using inv lt le by (simp add: attempt_inv_def log_ok_append)
    with neg inv show "attempt_inv sz
        (a\<lparr>line := ln2, reads := reads a @ [(cursor a, sz - cursor a, k)]\<rparr>)"
      by (simp add: attempt_inv_def)
  }
qed (auto simp: attempt_inv_def)

text \<open>
  C7. In every framing attempt (the cursor starts at 0) the cursor ends within the
  message, \<open>cursor \<le> sz\<close>; the buffer keeps the size of the message, so nothing is
  stored past its end; and the log of the \<^verbatim>\<open>read()\<close> calls is in order: every
  call is made with the cursor short of \<open>sz\<close> (none once the message is full), asks for
  \<open>sz - cursor\<close> bytes, gets no more, and moves the cursor by what it got. \<open>sz\<close> is
  163 in the survey loop and 51 in the ranging loop.
\<close>

theorem cursor_within_message:
  assumes "length buf = sz"
  shows "cursor (start_attempt sz buf ln) \<le> sz
       \<and> length (buffer (start_attempt sz buf ln)) = sz
       \<and> log_ok sz 0 (reads (start_attempt sz buf ln)) (cursor (start_attempt sz buf ln))"
proof -
  have "attempt_inv sz \<lparr>cursor = 0, buffer = buf, line = ln, reads = []\<rparr>"
    using assms by (simp add: attempt_inv_def)
  then have "attempt_inv sz (start_attempt sz buf ln)"
    unfolding start_attempt_def by (rule receive_inv)
  then show ?thesis by (simp add: attempt_inv_def)
qed

text \<open>
  An attempt at a distance message: 60 bytes are at hand at once, 51 are asked for and
  stored, 9 are left on the line.
\<close>

theorem cursor_within_message_witness:
  "cursor (start_attempt 51 (replicate 51 0) [Ready 0 (Bytes (replicate 60 7))]) = 51
   \<and> reads (start_attempt 51 (replicate 51 0) [Ready 0 (Bytes (replicate 60 7))]) = [(0, 51, 51)]
   \<and> line (start_attempt 51 (replicate 51 0) [Ready 0 (Bytes (replicate 60 7))])
       = [Ready 0 (Bytes (replicate 9 7))]
   \<and> length (buffer (start_attempt 51 (replicate 51 0) [Ready 0 (Bytes (replicate 60 7))])) = 51
   \<and> log_ok 51 0 (reads (start_attempt 51 (replicate 51 0) [Ready 0 (Bytes (replicate 60 7))]))
        (cursor (start_attempt 51 (replicate 51 0) [Ready 0 (Bytes (replicate 60 7))]))"
  using cursor_within_message [of "replicate 51 0" 51 "[Ready 0 (Bytes (replicate 60 7))]"]
  by (simp add: example_simps)

subsection \<open>A read of zero bytes\<close>

text \<open>
  C3, as the code has it. When the descriptor is readable within the timeout and the
  read returns zero bytes, the accumulation loop is left at once (\<^verbatim>\<open>break\<close>):
  the attempt ends with the cursor and the buffer as they were, and what the line
  still has to deliver is not read in this attempt.
\<close>

theorem zero_read_ends_attempt:
  assumes "cursor a < sz" and "line a = Ready gap (Bytes []) # rest" and "gap < tmo"
  shows "receive sz tmo a = a\<lparr>line := rest, reads := reads a @ [(cursor a, sz - cursor a, 0)]\<rparr>"
proof -
  have sel: "uart_select tmo (line a) = (1, Ready 0 (Bytes []) # rest)"
    using assms by simp
  have rd: "uart_read (sz - cursor a) (Ready 0 (Bytes []) # rest) = (0, [], rest)"
    by simp
  show ?thesis
    using receive_break [OF assms(1) sel _ rd] by simp
qed

theorem zero_read_ends_attempt_witness:
  "receive 51 5000
     \<lparr>cursor = 25, buffer = replicate 51 0,
      line = [Ready 100 (Bytes []), Ready 0 (Bytes [0x1b])], reads = []\<rparr>
   = \<lparr>cursor = 25, buffer = replicate 51 0,
      line = [Ready 0 (Bytes [0x1b])], reads = [(25, 26, 0)]\<rparr>"
  using zero_read_ends_attempt [of
      "\<lparr>cursor = 25, buffer = replicate 51 0,
        line = [Ready 100 (Bytes []), Ready 0 (Bytes [0x1b])], reads = []\<rparr>"
      51 100 "[Ready 0 (Bytes [0x1b])]" 5000]
  by simp

text \<open>
  That the loop goes back to waiting after a read of zero bytes does not hold of the
  code. A distance message arrives in two pieces, 25 bytes and 26 bytes, each readable
  at once, with one read of zero bytes between them. Had the
  loop gone back to waiting, the second piece (at hand at once) would have been read
  and the message completed. The attempt ends after the zero-byte read instead, with 25
  bytes, and the second piece is still on the line.
\<close>

theorem zero_read_counterexample:
  "cursor (start_attempt sizeof_distance_msg (replicate 51 0)
     [Ready 0 (Bytes (replicate 25 0)), Ready 0 (Bytes []),
      Ready 0 (Bytes (replicate 25 0 @ [0x1b]))]) = 25
   \<and> line (start_attempt sizeof_distance_msg (replicate 51 0)
     [Ready 0 (Bytes (replicate 25 0)), Ready 0 (Bytes []),
      Ready 0 (Bytes (replicate 25 0 @ [0x1b]))])
     = [Ready 0 (Bytes (replicate 25 0 @ [0x1b]))]
   \<and> cursor (start_attempt sizeof_distance_msg (replicate 51 0)
     [Ready 0 (Bytes (replicate 25 0)),
      Ready 0 (Bytes (replicate 25 0 @ [0x1b]))]) = 51"
  by (simp add: example_simps)

subsection \<open>Round trip of a frame\<close>

lemma byte_by_byte_Cons [simp]:
  "byte_by_byte (g # gs) (b # bs) = Ready g (Bytes [b]) # byte_by_byte gs bs"
  by (simp add: byte_by_byte_def)

lemma byte_by_byte_Nil [simp]: "byte_by_byte gs [] = []"
  by (simp add: byte_by_byte_def)

text \<open>
  From cursor \<open>c\<close>, the bytes \<open>bs\<close> that complete the message, each arriving before
  the timeout in force, are stored one by one behind what the buffer holds.
\<close>

lemma receive_bytes:
  assumes "c + length bs = sz" and "length gs = length bs" and "length buf = sz"
    and "bs \<noteq> [] \<Longrightarrow> hd gs < tmo" and "\<forall>g \<in> set (tl gs). g < timeval 0 BYTE_TIMEOUT_US"
  shows "receive sz tmo \<lparr>cursor = c, buffer = buf, line = byte_by_byte gs bs @ rest, reads = calls\<rparr>
         = \<lparr>cursor = sz, buffer = take c buf @ bs, line = rest,
            reads = calls @ map (\<lambda>i. (i, sz - i, 1)) [c ..< sz]\<rparr>"
  using assms
proof (induction bs arbitrary: c gs buf tmo calls)
  case Nil
  then show ?case by (simp add: receive_full)
next
  case (Cons b bs)
  from Cons.prems obtain g gs' where gs: "gs = g # gs'"
    by (cases gs) auto
  let ?a = "\<lparr>cursor = c, buffer = buf, line = byte_by_byte gs (b # bs) @ rest, reads = calls\<rparr>"
  have lt: "cursor ?a < sz" using Cons.prems by simp
  have g: "g < tmo" using Cons.prems gs by simp
  have sel: "uart_select tmo (line ?a) = (1, Ready 0 (Bytes [b]) # byte_by_byte gs' bs @ rest)"
    using g gs by simp
  have rd: "uart_read (sz - cursor ?a) (Ready 0 (Bytes [b]) # byte_by_byte gs' bs @ rest)
            = (1, [b], byte_by_byte gs' bs @ rest)"
    using lt by simp
  have step: "receive sz tmo ?a =
     receive sz (timeval 0 BYTE_TIMEOUT_US)
       \<lparr>cursor = Suc c, buffer = store buf c [b],
        line = byte_by_byte gs' bs @ rest, reads = calls @ [(c, sz - c, 1)]\<rparr>"
    using receive_step [OF lt sel _ rd] by simp
  have len: "length (store buf c [b]) = sz"
    using Cons.prems by (simp add: length_store)
  have hdgs: "bs \<noteq> [] \<Longrightarrow> hd gs' < timeval 0 BYTE_TIMEOUT_US"
    using Cons.prems gs by (cases gs') auto
  have tlgs: "\<forall>g \<in> set (tl gs'). g < timeval 0 BYTE_TIMEOUT_US"
    using Cons.prems gs by (cases gs') auto
  have "receive sz (timeval 0 BYTE_TIMEOUT_US)
       \<lparr>cursor = Suc c, buffer = store buf c [b],
        line = byte_by_byte gs' bs @ rest, reads = calls @ [(c, sz - c, 1)]\<rparr>
     = \<lparr>cursor = sz, buffer = take (Suc c) (store buf c [b]) @ bs, line = rest,
            reads = (calls @ [(c, sz - c, 1)]) @ map (\<lambda>i. (i, sz - i, 1)) [Suc c ..< sz]\<rparr>"
    using Cons.prems gs by (intro Cons.IH len hdgs tlgs) auto
  moreover have "take (Suc c) (store buf c [b]) = take c buf @ [b]"
    using Cons.prems by (simp add: store_def)
  moreover have "[c ..< sz] = c # [Suc c ..< sz]"
    using Cons.prems by (simp add: upt_conv_Cons)
  ultimately show ?case using step by simp
qed

text \<open>
  A first byte that is not there when the cold wait ends: the attempt ends empty, and
  the bytes to come are all still to come.
\<close>

lemma start_attempt_cold:
  assumes "0 < sz" and "timeval MESSAGE_TIMEOUT_S MESSAGE_TIMEOUT_US \<le> g"
  shows "start_attempt sz buf (Ready g r # rest)
       = \<lparr>cursor = 0, buffer = buf,
          line = Ready (g - timeval MESSAGE_TIMEOUT_S MESSAGE_TIMEOUT_US) r # rest, reads = []\<rparr>"
proof -
  let ?a = "\<lparr>cursor = 0, buffer = buf, line = Ready g r # rest, reads = []\<rparr>"
  let ?t = "timeval MESSAGE_TIMEOUT_S MESSAGE_TIMEOUT_US"
  have sel: "uart_select ?t (line ?a) = (0, Ready (g - ?t) r # rest)"
    using assms by simp
  have "cursor ?a < sz" using assms by simp
  from receive_timeout [OF this sel] show ?thesis
    by (simp add: start_attempt_def)
qed

lemma round_trip_after_cold_waits:
  assumes "length frame = sz" and "length gaps = sz" and "0 < sz" and "length buf = sz"
    and "\<forall>g \<in> set (tl gaps). g < timeval 0 BYTE_TIMEOUT_US"
    and "hd gaps div timeval MESSAGE_TIMEOUT_S MESSAGE_TIMEOUT_US = n"
  shows "((\<lambda>a. start_attempt sz (buffer a) (line a)) ^^ Suc n)
           \<lparr>cursor = 0, buffer = buf, line = byte_by_byte gaps frame @ rest, reads = []\<rparr>
         = \<lparr>cursor = sz, buffer = frame, line = rest, reads = map (\<lambda>i. (i, sz - i, 1)) [0 ..< sz]\<rparr>"
  using assms
proof (induction n arbitrary: gaps)
  case 0
  have pos: "0 < timeval MESSAGE_TIMEOUT_S MESSAGE_TIMEOUT_US"
    by (simp add: timeval_def MESSAGE_TIMEOUT_S_def)
  from 0 pos have "hd gaps < timeval MESSAGE_TIMEOUT_S MESSAGE_TIMEOUT_US"
    by (simp add: div_eq_0_iff)
  with 0 show ?case
    using receive_bytes [of 0 frame sz gaps buf "timeval MESSAGE_TIMEOUT_S MESSAGE_TIMEOUT_US" rest "[]"]
    by (simp add: start_attempt_def)
next
  case (Suc n)
  let ?t = "timeval MESSAGE_TIMEOUT_S MESSAGE_TIMEOUT_US"
  from Suc.prems obtain g gs where gaps: "gaps = g # gs" by (cases gaps) auto
  from Suc.prems obtain b bs where frame: "frame = b # bs" by (cases frame) auto
  have pos: "0 < ?t" by (simp add: timeval_def MESSAGE_TIMEOUT_S_def)
  have ge: "?t \<le> g"
  proof (rule ccontr)
    assume "\<not> ?t \<le> g"
    then have "g div ?t = 0" by simp
    with Suc.prems gaps show False by simp
  qed
  have "(g - ?t) div ?t = n"
    using Suc.prems gaps ge pos by (simp add: le_div_geq)
  then have IH: "((\<lambda>a. start_attempt sz (buffer a) (line a)) ^^ Suc n)
           \<lparr>cursor = 0, buffer = buf, line = byte_by_byte ((g - ?t) # gs) frame @ rest, reads = []\<rparr>
         = \<lparr>cursor = sz, buffer = frame, line = rest, reads = map (\<lambda>i. (i, sz - i, 1)) [0 ..< sz]\<rparr>"
    using Suc.prems gaps by (intro Suc.IH) auto
  have "start_attempt sz buf (byte_by_byte gaps frame @ rest)
        = \<lparr>cursor = 0, buffer = buf, line = byte_by_byte ((g - ?t) # gs) frame @ rest, reads = []\<rparr>"
    using start_attempt_cold [OF Suc.prems(3) ge] gaps frame by simp
  with IH show ?case
    by (simp only: funpow_Suc_right o_apply attempt.simps)
qed

text \<open>
  C4. A frame of \<open>sz\<close> bytes (163 or 51) arrives one byte at a time, every byte after
  the first less than \<^verbatim>\<open>BYTE_TIMEOUT_US\<close> after the byte before it, on a line with
  nothing ahead of the frame. Then the attempt in which the first byte arrives ends with
  the cursor at \<open>sz\<close> and the buffer equal to the frame, byte for byte, and with the
  line exactly behind the frame. That attempt is the first one when the first byte
  arrives within the cold wait of \<^verbatim>\<open>{MESSAGE_TIMEOUT_S, MESSAGE_TIMEOUT_US}\<close>; each
  cold wait that ends before the first byte arrives gives an empty attempt that takes
  nothing from the frame, and there are \<open>hd gaps div 10000001\<close> of them.
\<close>

theorem frame_round_trip:
  assumes "length frame = sz" and "length gaps = sz" and "0 < sz" and "length buf = sz"
    and "\<forall>g \<in> set (tl gaps). g < timeval 0 BYTE_TIMEOUT_US"
  shows "let a = (next_attempt sz ^^ (hd gaps div timeval MESSAGE_TIMEOUT_S MESSAGE_TIMEOUT_US))
                   (start_attempt sz buf (byte_by_byte gaps frame @ rest))
         in cursor a = sz \<and> buffer a = frame \<and> line a = rest"
proof -
  let ?n = "hd gaps div timeval MESSAGE_TIMEOUT_S MESSAGE_TIMEOUT_US"
  let ?a0 = "\<lparr>cursor = 0, buffer = buf, line = byte_by_byte gaps frame @ rest, reads = []\<rparr>"
  have f: "next_attempt sz = (\<lambda>a. start_attempt sz (buffer a) (line a))"
    by (rule ext) (simp add: next_attempt_def)
  have "(next_attempt sz ^^ ?n) (start_attempt sz buf (byte_by_byte gaps frame @ rest))
        = (next_attempt sz ^^ Suc ?n) ?a0"
    by (simp only: funpow_Suc_right o_apply next_attempt_def attempt.simps)
  also have "\<dots> = \<lparr>cursor = sz, buffer = frame, line = rest,
                     reads = map (\<lambda>i. (i, sz - i, 1)) [0 ..< sz]\<rparr>"
    unfolding f using assms by (intro round_trip_after_cold_waits) auto
  finally show ?thesis by simp
qed

text \<open>
  A distance message of 50 bytes \<open>0xAA\<close> and the stop byte, one byte every
  millisecond, into a buffer full of \<open>0xFF\<close>.
\<close>

theorem frame_round_trip_witness:
  "cursor (start_attempt 51 (replicate 51 0xff)
            (byte_by_byte (replicate 51 1000) (replicate 50 0xaa @ [0x1b]))) = 51
   \<and> buffer (start_attempt 51 (replicate 51 0xff)
            (byte_by_byte (replicate 51 1000) (replicate 50 0xaa @ [0x1b])))
       = replicate 50 0xaa @ [0x1b]
   \<and> line (start_attempt 51 (replicate 51 0xff)
            (byte_by_byte (replicate 51 1000) (replicate 50 0xaa @ [0x1b]))) = []"
  using frame_round_trip [of "replicate 50 0xaa @ [0x1b]" 51 "replicate 51 1000"
      "replicate 51 0xff" "[]"]
  by (simp add: timeval_def MESSAGE_TIMEOUT_S_def MESSAGE_TIMEOUT_US_def BYTE_TIMEOUT_US_def
      Let_def)

subsection \<open>What each step of the driver touches\<close>

lemma send_command_frame [simp]:
  "rx (send_command c w) = rx w"
  "exit_polls (send_command c w) = exit_polls w"
  "grid_survey_msg (send_command c w) = grid_survey_msg w"
  "distance_result_msg (send_command c w) = distance_result_msg w"
  "uwb_grid_pub (send_command c w) = uwb_grid_pub w"
  "uwb_distance_pub (send_command c w) = uwb_distance_pub w"
  "read_count_perf (send_command c w) = read_count_perf w"
  "read_err_perf (send_command c w) = read_err_perf w"
  "writes (send_command c w) = writes w @ [c]"
  by (simp_all add: send_command_def uart_write_def split: list.split)

lemma publish_grid_polls:
  "publish_grid (w\<lparr>exit_polls := p\<rparr>) = (publish_grid w)\<lparr>exit_polls := p\<rparr>"
  by (simp add: publish_grid_def)

lemma survey_iter_frame [simp]:
  "exit_polls (snd (survey_iter c w)) = exit_polls w"
  "writes (snd (survey_iter c w)) = writes w @ [c]"
  "read_count_perf (snd (survey_iter c w)) = read_count_perf w + 1"
  "uwb_grid_pub (snd (survey_iter c w)) = uwb_grid_pub w"
  "uwb_distance_pub (snd (survey_iter c w)) = uwb_distance_pub w"
  "read_err_perf (snd (survey_iter c w)) = read_err_perf w"
  by (simp_all add: survey_iter_def grid_accumulate_def Let_def)

lemma ranging_iter_frame [simp]:
  "exit_polls (ranging_iter w) = exit_polls w"
  "writes (ranging_iter w) = writes w"
  "read_count_perf (ranging_iter w) = read_count_perf w + 1"
  "uwb_grid_pub (ranging_iter w) = uwb_grid_pub w"
  by (simp_all add: ranging_iter_def dist_accumulate_def Let_def)

lemma ranging_iter_polls:
  "ranging_iter (w\<lparr>exit_polls := p\<rparr>) = (ranging_iter w)\<lparr>exit_polls := p\<rparr>"
  by (auto simp: ranging_iter_def dist_accumulate_def Let_def)

lemma publish_grid_frame [simp]:
  "exit_polls (publish_grid w) = exit_polls w"
  "writes (publish_grid w) = writes w"
  "read_count_perf (publish_grid w) = read_count_perf w"
  "uwb_grid_pub (publish_grid w) = uwb_grid_pub w @ [grid_survey_msg w]"
  by (simp_all add: publish_grid_def)

lemma sleep_frame [simp]:
  "exit_polls (sleep t w) = exit_polls w"
  "writes (sleep t w) = writes w"
  "read_count_perf (sleep t w) = read_count_perf w"
  "uwb_grid_pub (sleep t w) = uwb_grid_pub w"
  by (simp_all add: sleep_def)

lemma sleep_polls:
  "sleep t (w\<lparr>exit_polls := p\<rparr>) = (sleep t w)\<lparr>exit_polls := p\<rparr>"
  by (simp add: sleep_def)

subsection \<open>The ranging loop\<close>

lemma ranging_iters_polls:
  "(ranging_iter ^^ k) (w\<lparr>exit_polls := p\<rparr>) = ((ranging_iter ^^ k) w)\<lparr>exit_polls := p\<rparr>"
  by (induction k) (simp_all add: ranging_iter_polls)

lemma ranging_iters_frame [simp]:
  "exit_polls ((ranging_iter ^^ k) w) = exit_polls w"
  "writes ((ranging_iter ^^ k) w) = writes w"
  "read_count_perf ((ranging_iter ^^ k) w) = read_count_perf w + k"
  by (induction k) simp_all

lemma ranging_loop_cancel:
  "exit_polls w = replicate k False @ True # ps \<Longrightarrow> k < fuel \<Longrightarrow>
   ranging_loop fuel w = Some (((ranging_iter ^^ k) w)\<lparr>exit_polls := ps\<rparr>)"
proof (induction k arbitrary: fuel w)
  case 0
  then obtain f where "fuel = Suc f" by (cases fuel) auto
  with 0 show ?case by (simp add: should_exit_def)
next
  case (Suc k)
  then obtain f where fuel: "fuel = Suc f" and f: "k < f" by (cases fuel) auto
  let ?w = "(ranging_iter w)\<lparr>exit_polls := replicate k False @ True # ps\<rparr>"
  have "ranging_loop fuel w = ranging_loop f ?w"
    using Suc.prems fuel by (simp add: should_exit_def ranging_iter_polls)
  also have "\<dots> = Some (((ranging_iter ^^ k) ?w)\<lparr>exit_polls := ps\<rparr>)"
    using f by (intro Suc.IH) simp_all
  also have "((ranging_iter ^^ k) ?w)\<lparr>exit_polls := ps\<rparr>
             = ((ranging_iter ^^ Suc k) w)\<lparr>exit_polls := ps\<rparr>"
    by (simp add: ranging_iters_polls funpow_swap1)
  finally show ?case .
qed

lemma ranging_loop_short:
  "exit_polls w = replicate k False @ ps \<Longrightarrow> fuel \<le> k \<Longrightarrow> ranging_loop fuel w = None"
proof (induction fuel arbitrary: k w)
  case 0
  show ?case by simp
next
  case (Suc fuel)
  then obtain j where k: "k = Suc j" by (cases k) auto
  let ?w = "ranging_iter (w\<lparr>exit_polls := replicate j False @ ps\<rparr>)"
  have "ranging_loop (Suc fuel) w = ranging_loop fuel ?w"
    using Suc.prems k by (simp add: should_exit_def)
  also have "\<dots> = None"
    using Suc.prems k by (intro Suc.IH [of _ j]) simp_all
  finally show ?case .
qed

lemma ranging_loop_never:
  "True \<notin> set (exit_polls w) \<Longrightarrow> ranging_loop fuel w = None"
proof (induction fuel arbitrary: w)
  case 0
  show ?case by simp
next
  case (Suc fuel)
  show ?case
  proof (cases "exit_polls w")
    case Nil
    then have "ranging_loop (Suc fuel) w = ranging_loop fuel (ranging_iter w)"
      by (simp add: should_exit_def)
    also have "\<dots> = None" using Nil by (intro Suc.IH) simp
    finally show ?thesis .
  next
    case (Cons b bs)
    with Suc.prems have b: "\<not> b" and bs: "True \<notin> set bs" by auto
    from Cons b have "ranging_loop (Suc fuel) w = ranging_loop fuel (ranging_iter (w\<lparr>exit_polls := bs\<rparr>))"
      by (simp add: should_exit_def)
    also have "\<dots> = None" using bs by (intro Suc.IH) simp
    finally show ?thesis .
  qed
qed

lemma first_True:
  "True \<in> set bs \<Longrightarrow> \<exists>k ps. bs = replicate k False @ True # ps"
proof (induction bs)
  case Nil
  then show ?case by simp
next
  case (Cons b bs)
  show ?case
  proof (cases b)
    case True
    then have "b # bs = replicate 0 False @ True # bs" by simp
    then show ?thesis by blast
  next
    case False
    with Cons obtain k ps where "bs = replicate k False @ True # ps" by auto
    with False have "b # bs = replicate (Suc k) False @ True # ps" by simp
    then show ?thesis by blast
  qed
qed

lemma ranging_loop_Some:
  assumes "ranging_loop fuel w = Some w'"
  shows "\<exists>k ps. k < fuel \<and> exit_polls w = replicate k False @ True # ps
          \<and> w' = ((ranging_iter ^^ k) w)\<lparr>exit_polls := ps\<rparr>"
proof -
  have "True \<in> set (exit_polls w)"
    using assms ranging_loop_never [of w fuel] by auto
  then obtain k ps where polls: "exit_polls w = replicate k False @ True # ps"
    using first_True by blast
  have k: "k < fuel"
  proof (rule ccontr)
    assume "\<not> k < fuel"
    then have "ranging_loop fuel w = None"
      using polls by (intro ranging_loop_short [of w k "True # ps"]) simp_all
    with assms show False by simp
  qed
  from ranging_loop_cancel [OF polls k] assms polls k show ?thesis by auto
qed

subsection \<open>The survey loop\<close>

lemma survey_attempts_shift:
  "survey_attempts (Suc n) c w = survey_attempts n c (snd (survey_iter c w))"
  by (induction n) simp_all

lemma survey_attempts_frame [simp]:
  "exit_polls (survey_attempts n c w) = exit_polls w"
  "writes (survey_attempts n c w) = writes w @ replicate n c"
  "read_count_perf (survey_attempts n c w) = read_count_perf w + n"
  "uwb_grid_pub (survey_attempts n c w) = uwb_grid_pub w"
  "uwb_distance_pub (survey_attempts n c w) = uwb_distance_pub w"
  by (induction n) (simp_all add: replicate_append_same)

lemma survey_loop_retry:
  "\<forall>i<n. \<not> fst (survey_iter c (survey_attempts i c w)) \<Longrightarrow>
   survey_loop (n + fuel) c w = survey_loop fuel c (survey_attempts n c w)"
proof (induction n arbitrary: w)
  case 0
  show ?case by simp
next
  case (Suc n)
  from Suc.prems have first: "\<not> fst (survey_iter c w)" by force
  have later: "\<forall>i<n. \<not> fst (survey_iter c (survey_attempts i c (snd (survey_iter c w))))"
  proof (intro allI impI)
    fix i assume "i < n"
    then have "Suc i < Suc n" by simp
    with Suc.prems have "\<not> fst (survey_iter c (survey_attempts (Suc i) c w))" by blast
    then show "\<not> fst (survey_iter c (survey_attempts i c (snd (survey_iter c w))))"
      by (simp del: survey_attempts.simps add: survey_attempts_shift)
  qed
  have "survey_loop (Suc n + fuel) c w = survey_loop (n + fuel) c (snd (survey_iter c w))"
    using first by (simp add: case_prod_beta)
  also have "\<dots> = survey_loop fuel c (survey_attempts n c (snd (survey_iter c w)))"
    using later by (rule Suc.IH)
  finally show ?case by (simp del: survey_attempts.simps add: survey_attempts_shift)
qed

lemma survey_loop_Some:
  "survey_loop fuel c w = Some w1 \<Longrightarrow>
   \<exists>n. 0 < n \<and> n \<le> fuel \<and> w1 = survey_attempts n c w"
proof (induction fuel arbitrary: w)
  case 0
  then show ?case by simp
next
  case (Suc fuel)
  show ?case
  proof (cases "fst (survey_iter c w)")
    case True
    with Suc.prems have "w1 = survey_attempts (Suc 0) c w"
      by (simp add: case_prod_beta)
    then show ?thesis by (intro exI [of _ "Suc 0"]) simp
  next
    case False
    with Suc.prems have "survey_loop fuel c (snd (survey_iter c w)) = Some w1"
      by (simp add: case_prod_beta)
    from Suc.IH [OF this] obtain n where "0 < n" "n \<le> fuel"
      and "w1 = survey_attempts n c (snd (survey_iter c w))" by blast
    then show ?thesis
      by (intro exI [of _ "Suc n"]) (simp del: survey_attempts.simps add: survey_attempts_shift)
  qed
qed

lemma survey_loop_accepts:
  "survey_loop fuel c w = Some w1 \<Longrightarrow> stop_byte (grid_survey_msg w1) = 0x1b"
proof (induction fuel arbitrary: w)
  case 0
  then show ?case by simp
next
  case (Suc fuel)
  show ?case
  proof (cases "fst (survey_iter c w)")
    case True
    with Suc.prems have "w1 = snd (survey_iter c w)" by (simp add: case_prod_beta)
    with True show ?thesis by (simp add: survey_iter_def case_prod_beta)
  next
    case False
    with Suc.prems have "survey_loop fuel c (snd (survey_iter c w)) = Some w1"
      by (simp add: case_prod_beta)
    then show ?thesis by (rule Suc.IH)
  qed
qed

text \<open>An attempt that gets one byte and then waits in vain for the second.\<close>

lemma aborted_attempt:
  assumes "g < timeval MESSAGE_TIMEOUT_S MESSAGE_TIMEOUT_US" and "timeval 0 BYTE_TIMEOUT_US \<le> g'"
    and "1 < sz"
  shows "start_attempt sz buf (Ready g (Bytes [b]) # Ready g' r # rest)
         = \<lparr>cursor = 1, buffer = store buf 0 [b],
            line = Ready (g' - timeval 0 BYTE_TIMEOUT_US) r # rest, reads = [(0, sz, 1)]\<rparr>"
proof -
  let ?a = "\<lparr>cursor = 0, buffer = buf, line = Ready g (Bytes [b]) # Ready g' r # rest, reads = []\<rparr>"
  let ?b = "\<lparr>cursor = 1, buffer = store buf 0 [b], line = Ready g' r # rest, reads = [(0, sz, 1)]\<rparr>"
  have lt: "cursor ?a < sz" using assms by simp
  have sel: "uart_select (timeval MESSAGE_TIMEOUT_S MESSAGE_TIMEOUT_US) (line ?a)
             = (1, Ready 0 (Bytes [b]) # Ready g' r # rest)"
    using assms by simp
  have rd: "uart_read (sz - cursor ?a) (Ready 0 (Bytes [b]) # Ready g' r # rest)
            = (1, [b], Ready g' r # rest)"
    using assms by simp
  have "receive sz (timeval MESSAGE_TIMEOUT_S MESSAGE_TIMEOUT_US) ?a
        = receive sz (timeval 0 BYTE_TIMEOUT_US) ?b"
    using receive_step [OF lt sel _ rd] by simp
  also have "\<dots> = ?b\<lparr>line := Ready (g' - timeval 0 BYTE_TIMEOUT_US) r # rest\<rparr>"
    using assms by (intro receive_timeout [where r = 0]) simp_all
  finally show ?thesis by (simp add: start_attempt_def)
qed

lemma survey_iter_aborted:
  assumes "rx w = Ready g (Bytes [b]) # Ready g' r # rest"
    and "g < timeval MESSAGE_TIMEOUT_S MESSAGE_TIMEOUT_US" and "timeval 0 BYTE_TIMEOUT_US \<le> g'"
  shows "\<not> fst (survey_iter c w)"
    and "rx (snd (survey_iter c w)) = Ready (g' - timeval 0 BYTE_TIMEOUT_US) r # rest"
  using assms
  by (simp_all add: survey_iter_def grid_accumulate_def Let_def aborted_attempt sizeof_grid_msg_def)

subsection \<open>Acceptance\<close>

text \<open>
  C1. In both phases the outcome of an attempt depends on the cursor and the stop byte
  alone. A survey round sets \<^verbatim>\<open>grid_found\<close> exactly when the cursor is 163 and the
  stop byte is \<open>0x1b\<close>; the survey loop is left exactly then; a grid that leaves the
  loop has that stop byte and is published. A ranging round publishes one distance
  record exactly when the cursor is 51 and the stop byte is \<open>0x1b\<close>, and none
  otherwise. No other byte of the message (status, positions, distances) is looked at.
\<close>

theorem acceptance_is_size_and_stop_byte:
  "fst (survey_iter cmd w) =
     (cursor (start_attempt sizeof_grid_msg (grid_survey_msg w) (rx w)) = sizeof_grid_msg
      \<and> stop_byte (buffer (start_attempt sizeof_grid_msg (grid_survey_msg w) (rx w))) = 0x1b)
   \<and> survey_loop (Suc fuel) cmd w =
       (if fst (survey_iter cmd w) then Some (snd (survey_iter cmd w))
        else survey_loop fuel cmd (snd (survey_iter cmd w)))
   \<and> (survey_loop fuel cmd w = Some w1 \<longrightarrow>
        stop_byte (grid_survey_msg w1) = 0x1b
        \<and> uwb_grid_pub (publish_grid w1) = uwb_grid_pub w @ [grid_survey_msg w1])
   \<and> uwb_distance_pub (ranging_iter w) =
       (if cursor (start_attempt sizeof_distance_msg (distance_result_msg w) (rx w))
             = sizeof_distance_msg
           \<and> stop_byte (buffer (start_attempt sizeof_distance_msg (distance_result_msg w) (rx w)))
             = 0x1b
        then uwb_distance_pub w
               @ [buffer (start_attempt sizeof_distance_msg (distance_result_msg w) (rx w))]
        else uwb_distance_pub w)"
proof (intro conjI impI)
  show "fst (survey_iter cmd w) =
     (cursor (start_attempt sizeof_grid_msg (grid_survey_msg w) (rx w)) = sizeof_grid_msg
      \<and> stop_byte (buffer (start_attempt sizeof_grid_msg (grid_survey_msg w) (rx w))) = 0x1b)"
    by (simp add: survey_iter_def grid_accumulate_def Let_def)
  show "survey_loop (Suc fuel) cmd w =
       (if fst (survey_iter cmd w) then Some (snd (survey_iter cmd w))
        else survey_loop fuel cmd (snd (survey_iter cmd w)))"
    by (simp add: case_prod_beta)
  show "uwb_distance_pub (ranging_iter w) =
       (if cursor (start_attempt sizeof_distance_msg (distance_result_msg w) (rx w))
             = sizeof_distance_msg
           \<and> stop_byte (buffer (start_attempt sizeof_distance_msg (distance_result_msg w) (rx w)))
             = 0x1b
        then uwb_distance_pub w
               @ [buffer (start_attempt sizeof_distance_msg (distance_result_msg w) (rx w))]
        else uwb_distance_pub w)"
    by (auto simp: ranging_iter_def dist_accumulate_def Let_def)
next
  assume some: "survey_loop fuel cmd w = Some w1"
  then show "stop_byte (grid_survey_msg w1) = 0x1b" by (rule survey_loop_accepts)
  from survey_loop_Some [OF some]
  show "uwb_grid_pub (publish_grid w1) = uwb_grid_pub w @ [grid_survey_msg w1]"
    by auto
qed

text \<open>
  Messages whose every byte but the last is \<open>0xff\<close> (a status that is not 0,
  positions and distances that mean nothing) are accepted; a distance message of the
  right size whose last byte is 0 is not.
\<close>

theorem acceptance_is_size_and_stop_byte_witness:
  "fst (survey_iter example_grid_command
          (idle_driver\<lparr>rx := [Ready 0 (Bytes (replicate 162 0xff @ [0x1b]))]\<rparr>))
   \<and> uwb_distance_pub
        (ranging_iter (idle_driver\<lparr>rx := [Ready 0 (Bytes (replicate 50 0xff @ [0x1b]))]\<rparr>))
       = [replicate 50 0xff @ [0x1b]]
   \<and> uwb_distance_pub
        (ranging_iter (idle_driver\<lparr>rx := [Ready 0 (Bytes (replicate 50 0 @ [0x00]))]\<rparr>))
       = []"
  using acceptance_is_size_and_stop_byte [of example_grid_command
      "idle_driver\<lparr>rx := [Ready 0 (Bytes (replicate 162 0xff @ [0x1b]))]\<rparr>" 0]
  by (simp add: driver_simps example_simps nth_append)

subsection \<open>A failed attempt while ranging\<close>

text \<open>
  C5. A ranging round whose attempt is not accepted (the cursor is not 51, or the stop
  byte is not \<open>0x1b\<close>) counts one error, publishes nothing, and writes
  "UWB module is not responding." once exactly when the cursor is 0, and nothing
  otherwise; the loop, when not told to stop, goes on to the next round.
\<close>

theorem failed_distance_attempt:
  assumes "\<not> (cursor (start_attempt sizeof_distance_msg (distance_result_msg w) (rx w))
                = sizeof_distance_msg
              \<and> stop_byte (buffer (start_attempt sizeof_distance_msg (distance_result_msg w) (rx w)))
                = 0x1b)"
  shows "read_err_perf (ranging_iter w) = read_err_perf w + 1
       \<and> uwb_distance_pub (ranging_iter w) = uwb_distance_pub w
       \<and> uwb_grid_pub (ranging_iter w) = uwb_grid_pub w
       \<and> console (ranging_iter w) =
           console w @ (if cursor (start_attempt sizeof_distance_msg (distance_result_msg w) (rx w)) = 0
                        then [WARN_not_responding] else [])
       \<and> ranging_loop (Suc fuel) (w\<lparr>exit_polls := False # ps\<rparr>)
           = ranging_loop fuel ((ranging_iter w)\<lparr>exit_polls := ps\<rparr>)"
proof (intro conjI)
  show "ranging_loop (Suc fuel) (w\<lparr>exit_polls := False # ps\<rparr>)
           = ranging_loop fuel ((ranging_iter w)\<lparr>exit_polls := ps\<rparr>)"
    by (simp add: should_exit_def ranging_iter_polls)
qed (use assms in \<open>auto simp: ranging_iter_def dist_accumulate_def Let_def\<close>)

text \<open>
  A silent line: one error, one warning, nothing published. Three bytes and then
  silence: one error, no warning, nothing published.
\<close>

theorem failed_distance_attempt_witness:
  "read_err_perf (ranging_iter idle_driver) = 1
   \<and> uwb_distance_pub (ranging_iter idle_driver) = []
   \<and> console (ranging_iter idle_driver) = [WARN_not_responding]
   \<and> read_err_perf (ranging_iter (idle_driver\<lparr>rx := [Ready 0 (Bytes [1, 2, 3])]\<rparr>)) = 1
   \<and> uwb_distance_pub (ranging_iter (idle_driver\<lparr>rx := [Ready 0 (Bytes [1, 2, 3])]\<rparr>)) = []
   \<and> console (ranging_iter (idle_driver\<lparr>rx := [Ready 0 (Bytes [1, 2, 3])]\<rparr>)) = []"
  using failed_distance_attempt [of idle_driver 0 "[]"]
  by (simp add: driver_simps example_simps nth_append)

subsection \<open>Leaving the ranging loop\<close>

text \<open>
  C2. Whatever the serial line delivers, the ranging loop is left (for some amount of
  fuel) exactly when some poll of \<^verbatim>\<open>should_exit()\<close> returns true. When the first
  \<open>k\<close> polls return false and the next returns true, the loop has run exactly \<open>k\<close>
  rounds: it is still running with fuel for \<open>k\<close> rounds and is left in round
  \<open>k + 1\<close>, before any attempt of that round. No outcome of an attempt has a say.
\<close>

theorem ranging_ends_only_on_cancellation:
  "(\<exists>fuel w'. ranging_loop fuel w = Some w') = (True \<in> set (exit_polls w))
   \<and> (exit_polls w = replicate k False @ True # ps \<longrightarrow>
        ranging_loop k w = None
        \<and> ranging_loop (Suc k) w = Some (((ranging_iter ^^ k) w)\<lparr>exit_polls := ps\<rparr>))"
proof (intro conjI impI)
  show "(\<exists>fuel w'. ranging_loop fuel w = Some w') = (True \<in> set (exit_polls w))"
  proof
    assume "\<exists>fuel w'. ranging_loop fuel w = Some w'"
    then show "True \<in> set (exit_polls w)"
      using ranging_loop_never [of w] by fastforce
  next
    assume "True \<in> set (exit_polls w)"
    then obtain k ps where "exit_polls w = replicate k False @ True # ps"
      using first_True by blast
    then have "ranging_loop (Suc k) w = Some (((ranging_iter ^^ k) w)\<lparr>exit_polls := ps\<rparr>)"
      by (intro ranging_loop_cancel) simp_all
    then show "\<exists>fuel w'. ranging_loop fuel w = Some w'" by blast
  qed
next
  assume polls: "exit_polls w = replicate k False @ True # ps"
  then show "ranging_loop k w = None"
    by (intro ranging_loop_short [of w k "True # ps"]) simp_all
  from polls show "ranging_loop (Suc k) w = Some (((ranging_iter ^^ k) w)\<lparr>exit_polls := ps\<rparr>)"
    by (intro ranging_loop_cancel) simp_all
qed

text \<open>
  A line that delivers a failing \<^verbatim>\<open>select()\<close>, a failing \<^verbatim>\<open>read()\<close>, a
  read of zero bytes and a lone byte: the loop runs two rounds and is left at the third
  poll, the first that returns true.
\<close>

theorem ranging_ends_only_on_cancellation_witness:
  "(\<exists>fuel w'. ranging_loop fuel
       (idle_driver\<lparr>rx := [SelectFail, Ready 0 ReadFail, Ready 0 (Bytes []), Ready 0 (Bytes [7])],
                    exit_polls := [False, False, True]\<rparr>) = Some w')
   \<and> ranging_loop 2
       (idle_driver\<lparr>rx := [SelectFail, Ready 0 ReadFail, Ready 0 (Bytes []), Ready 0 (Bytes [7])],
                    exit_polls := [False, False, True]\<rparr>) = None
   \<and> (\<exists>w'. ranging_loop 3
       (idle_driver\<lparr>rx := [SelectFail, Ready 0 ReadFail, Ready 0 (Bytes []), Ready 0 (Bytes [7])],
                    exit_polls := [False, False, True]\<rparr>) = Some w')"
  using ranging_ends_only_on_cancellation [of
      "idle_driver\<lparr>rx := [SelectFail, Ready 0 ReadFail, Ready 0 (Bytes []), Ready 0 (Bytes [7])],
                    exit_polls := [False, False, True]\<rparr>" 2 "[]"]
  by (simp add: numeral_2_eq_2 numeral_3_eq_3)

subsection \<open>The order of writes and attempts\<close>

lemma journal_frame [simp]:
  "journal (send_command c w) = journal w @ [Wrote c (exit_polls w)]"
  "journal (publish_grid w) = journal w"
  "journal (sleep t w) = journal w"
  "journal (snd (survey_iter c w)) =
     journal w @ [Wrote c (exit_polls w),
       Attempted sizeof_grid_msg
         (cursor (start_attempt sizeof_grid_msg (grid_survey_msg w) (rx w)))]"
  "journal (ranging_iter w) =
     journal w @ [Attempted sizeof_distance_msg
         (cursor (start_attempt sizeof_distance_msg (distance_result_msg w) (rx w)))]"
  by (auto simp: send_command_def uart_write_def publish_grid_def sleep_def survey_iter_def
      grid_accumulate_def ranging_iter_def dist_accumulate_def Let_def split: list.split)

lemma survey_attempts_journal:
  "\<exists>cs. length cs = n \<and>
     journal (survey_attempts n c w) =
       journal w @ concat (map (\<lambda>x. [Wrote c (exit_polls w), Attempted sizeof_grid_msg x]) cs)"
proof (induction n)
  case 0
  show ?case by simp
next
  case (Suc n)
  then obtain cs where cs: "length cs = n"
    "journal (survey_attempts n c w) =
       journal w @ concat (map (\<lambda>x. [Wrote c (exit_polls w), Attempted sizeof_grid_msg x]) cs)"
    by blast
  let ?x = "cursor (start_attempt sizeof_grid_msg (grid_survey_msg (survey_attempts n c w))
              (rx (survey_attempts n c w)))"
  have "length (cs @ [?x]) = Suc n" using cs by simp
  moreover have "journal (survey_attempts (Suc n) c w) =
       journal w @ concat (map (\<lambda>x. [Wrote c (exit_polls w), Attempted sizeof_grid_msg x]) (cs @ [?x]))"
    using cs by simp
  ultimately show ?case by blast
qed

lemma ranging_iters_journal:
  "\<exists>ds. length ds = k \<and>
     journal ((ranging_iter ^^ k) w) = journal w @ map (Attempted sizeof_distance_msg) ds"
proof (induction k)
  case 0
  show ?case by simp
next
  case (Suc k)
  then obtain ds where ds: "length ds = k"
    "journal ((ranging_iter ^^ k) w) = journal w @ map (Attempted sizeof_distance_msg) ds"
    by blast
  let ?x = "cursor (start_attempt sizeof_distance_msg
              (distance_result_msg ((ranging_iter ^^ k) w)) (rx ((ranging_iter ^^ k) w)))"
  have "length (ds @ [?x]) = Suc k" using ds by simp
  moreover have "journal ((ranging_iter ^^ Suc k) w) =
       journal w @ map (Attempted sizeof_distance_msg) (ds @ [?x])"
    using ds by simp
  ultimately show ?case by blast
qed

subsection \<open>Polls that are never made\<close>



















subsection \<open>Runs that return\<close>

lemma survey_loop_Some_exact:
  "survey_loop fuel c w = Some w1 \<Longrightarrow>
   \<exists>n. n < fuel \<and> (\<forall>i<n. \<not> fst (survey_iter c (survey_attempts i c w)))
        \<and> fst (survey_iter c (survey_attempts n c w))
        \<and> w1 = survey_attempts (Suc n) c w"
proof (induction fuel arbitrary: w)
  case 0
  then show ?case by simp
next
  case (Suc fuel)
  show ?case
  proof (cases "fst (survey_iter c w)")
    case True
    with Suc.prems have "w1 = survey_attempts (Suc 0) c w"
      by (simp add: case_prod_beta)
    with True show ?thesis by (intro exI [of _ 0]) simp
  next
    case False
    with Suc.prems have "survey_loop fuel c (snd (survey_iter c w)) = Some w1"
      by (simp add: case_prod_beta)
    from Suc.IH [OF this] obtain n where n: "n < fuel"
      and fails: "\<forall>i<n. \<not> fst (survey_iter c (survey_attempts i c (snd (survey_iter c w))))"
      and acc: "fst (survey_iter c (survey_attempts n c (snd (survey_iter c w))))"
      and w1: "w1 = survey_attempts (Suc n) c (snd (survey_iter c w))"
      by blast
    have "\<forall>i<Suc n. \<not> fst (survey_iter c (survey_attempts i c w))"
    proof (intro allI impI)
      fix i assume i: "i < Suc n"
      show "\<not> fst (survey_iter c (survey_attempts i c w))"
      proof (cases i)
        case 0
        with False show ?thesis by simp
      next
        case (Suc j)
        with i fails have "\<not> fst (survey_iter c (survey_attempts j c (snd (survey_iter c w))))"
          by simp
        with Suc show ?thesis
          by (simp del: survey_attempts.simps add: survey_attempts_shift)
      qed
    qed
    moreover have "fst (survey_iter c (survey_attempts (Suc n) c w))"
      using acc by (simp del: survey_attempts.simps add: survey_attempts_shift)
    moreover have "w1 = survey_attempts (Suc (Suc n)) c w"
      using w1 by (simp del: survey_attempts.simps add: survey_attempts_shift)
    ultimately show ?thesis using n by (intro exI [of _ "Suc n"]) simp
  qed
qed

lemma survey_loop_total:
  assumes "\<forall>i<n. \<not> fst (survey_iter c (survey_attempts i c w))"
    and "fst (survey_iter c (survey_attempts n c w))" and "n < fuel"
  shows "survey_loop fuel c w = Some (survey_attempts (Suc n) c w)"
proof -
  from assms(3) obtain m where fuel: "fuel = n + Suc m"
    by (metis less_imp_add_positive Suc_pred add_Suc_right)
  have "survey_loop (n + Suc m) c w = survey_loop (Suc m) c (survey_attempts n c w)"
    using assms(1) by (rule survey_loop_retry)
  also have "\<dots> = Some (survey_attempts (Suc n) c w)"
    using assms(2) by (simp add: case_prod_beta)
  finally show ?thesis by (simp only: fuel)
qed

lemma run_Some:
  assumes "run fuel cg cd w = Some w'"
  shows "\<exists>n k ps w2. n < fuel \<and> k < fuel
          \<and> (\<forall>i<n. \<not> fst (survey_iter cg (survey_attempts i cg w)))
          \<and> fst (survey_iter cg (survey_attempts n cg w))
          \<and> survey_loop fuel cg w = Some (survey_attempts (Suc n) cg w)
          \<and> w2 = send_command cd (sleep 1 (publish_grid (survey_attempts (Suc n) cg w)))
          \<and> exit_polls w = replicate k False @ True # ps
          \<and> w' = send_command CMD_STOP_RANGING (((ranging_iter ^^ k) w2)\<lparr>exit_polls := ps\<rparr>)"
proof -
  from assms obtain w1 where s1: "survey_loop fuel cg w = Some w1"
    by (auto simp: run_def split: option.splits)
  let ?w2 = "send_command cd (sleep 1 (publish_grid w1))"
  from assms s1 obtain w3 where s3: "ranging_loop fuel ?w2 = Some w3"
    and w': "w' = send_command CMD_STOP_RANGING w3"
    by (auto simp: run_def split: option.splits)
  from survey_loop_Some_exact [OF s1] obtain n where n: "n < fuel"
    "\<forall>i<n. \<not> fst (survey_iter cg (survey_attempts i cg w))"
    "fst (survey_iter cg (survey_attempts n cg w))"
    "w1 = survey_attempts (Suc n) cg w"
    by blast
  from ranging_loop_Some [OF s3] obtain k ps where k: "k < fuel"
    and polls: "exit_polls ?w2 = replicate k False @ True # ps"
    and w3: "w3 = ((ranging_iter ^^ k) ?w2)\<lparr>exit_polls := ps\<rparr>"
    by blast
  from polls n(4) have "exit_polls w = replicate k False @ True # ps" by simp
  with n k s1 w' w3 show ?thesis by blast
qed

lemma run_total:
  assumes "\<forall>i<n. \<not> fst (survey_iter cg (survey_attempts i cg w))"
    and "fst (survey_iter cg (survey_attempts n cg w))"
    and "exit_polls w = replicate k False @ True # ps" and "n < fuel" and "k < fuel"
  shows "run fuel cg cd w =
     Some (send_command CMD_STOP_RANGING
       (((ranging_iter ^^ k)
           (send_command cd (sleep 1 (publish_grid (survey_attempts (Suc n) cg w)))))
          \<lparr>exit_polls := ps\<rparr>))"
proof -
  let ?w2 = "send_command cd (sleep 1 (publish_grid (survey_attempts (Suc n) cg w)))"
  have s1: "survey_loop fuel cg w = Some (survey_attempts (Suc n) cg w)"
    using assms(1,2,4) by (rule survey_loop_total)
  have "exit_polls ?w2 = replicate k False @ True # ps"
    using assms(3) by simp
  then have "ranging_loop fuel ?w2 = Some (((ranging_iter ^^ k) ?w2)\<lparr>exit_polls := ps\<rparr>)"
    using assms(5) by (rule ranging_loop_cancel)
  with s1 show ?thesis by (simp add: run_def)
qed

text \<open>What a finished run has in its journal and its writes.\<close>

lemma run_journal:
  assumes "w' = send_command CMD_STOP_RANGING
       (((ranging_iter ^^ k)
           (send_command cd (sleep 1 (publish_grid (survey_attempts (Suc n) cg w)))))
          \<lparr>exit_polls := ps\<rparr>)"
  shows "\<exists>cs ds. length cs = Suc n \<and> length ds = k
        \<and> journal w' = journal w
            @ concat (map (\<lambda>x. [Wrote cg (exit_polls w), Attempted sizeof_grid_msg x]) cs)
            @ [Wrote cd (exit_polls w)]
            @ map (Attempted sizeof_distance_msg) ds
            @ [Wrote CMD_STOP_RANGING ps]"
    and "writes w' = writes w @ replicate (Suc n) cg @ [cd, CMD_STOP_RANGING]"
    and "read_count_perf w' = read_count_perf w + Suc n + k"
    and "exit_polls w' = ps"
proof -
  let ?w1 = "survey_attempts (Suc n) cg w"
  let ?w2 = "send_command cd (sleep 1 (publish_grid ?w1))"
  obtain cs where cs: "length cs = Suc n"
    "journal ?w1 = journal w
       @ concat (map (\<lambda>x. [Wrote cg (exit_polls w), Attempted sizeof_grid_msg x]) cs)"
    using survey_attempts_journal [of "Suc n" cg w] by blast
  obtain ds where ds: "length ds = k"
    "journal ((ranging_iter ^^ k) ?w2) = journal ?w2 @ map (Attempted sizeof_distance_msg) ds"
    using ranging_iters_journal [of k ?w2] by blast
  have "journal w' = journal w
            @ concat (map (\<lambda>x. [Wrote cg (exit_polls w), Attempted sizeof_grid_msg x]) cs)
            @ [Wrote cd (exit_polls w)]
            @ map (Attempted sizeof_distance_msg) ds
            @ [Wrote CMD_STOP_RANGING ps]"
    unfolding assms using cs(2) ds(2) by simp
  with cs(1) ds(1) show "\<exists>cs ds. length cs = Suc n \<and> length ds = k
        \<and> journal w' = journal w
            @ concat (map (\<lambda>x. [Wrote cg (exit_polls w), Attempted sizeof_grid_msg x]) cs)
            @ [Wrote cd (exit_polls w)]
            @ map (Attempted sizeof_distance_msg) ds
            @ [Wrote CMD_STOP_RANGING ps]"
    by blast
  show "writes w' = writes w @ replicate (Suc n) cg @ [cd, CMD_STOP_RANGING]"
    unfolding assms by (simp add: replicate_append_same)
  show "read_count_perf w' = read_count_perf w + Suc n + k"
    unfolding assms by simp
  show "exit_polls w' = ps"
    unfolding assms by simp
qed


subsection \<open>Retries of the survey\<close>

text \<open>An attempt that finds the whole message at hand.\<close>

lemma whole_message_attempt:
  assumes "g < timeval MESSAGE_TIMEOUT_S MESSAGE_TIMEOUT_US" and "length frame = sz"
    and "0 < sz" and "length buf = sz"
  shows "start_attempt sz buf (Ready g (Bytes frame) # rest)
         = \<lparr>cursor = sz, buffer = frame, line = rest, reads = [(0, sz, int sz)]\<rparr>"
proof -
  let ?a = "\<lparr>cursor = 0, buffer = buf, line = Ready g (Bytes frame) # rest, reads = []\<rparr>"
  let ?b = "\<lparr>cursor = sz, buffer = frame, line = rest, reads = [(0, sz, int sz)]\<rparr>"
  have lt: "cursor ?a < sz" using assms by simp
  have sel: "uart_select (timeval MESSAGE_TIMEOUT_S MESSAGE_TIMEOUT_US) (line ?a)
             = (1, Ready 0 (Bytes frame) # rest)"
    using assms by simp
  have rd: "uart_read (sz - cursor ?a) (Ready 0 (Bytes frame) # rest) = (int sz, frame, rest)"
    using assms by simp
  have "receive sz (timeval MESSAGE_TIMEOUT_S MESSAGE_TIMEOUT_US) ?a
        = receive sz (timeval 0 BYTE_TIMEOUT_US) ?b"
    using receive_step [OF lt sel _ rd] assms by (simp add: store_def)
  also have "\<dots> = ?b" by (simp add: receive_full)
  finally show ?thesis by (simp add: start_attempt_def)
qed

lemma survey_iter_grid_length:
  "length (grid_survey_msg w) = sizeof_grid_msg \<Longrightarrow>
   length (grid_survey_msg (snd (survey_iter c w))) = sizeof_grid_msg"
proof -
  assume len: "length (grid_survey_msg w) = sizeof_grid_msg"
  have "attempt_inv sizeof_grid_msg
          \<lparr>cursor = 0, buffer = grid_survey_msg w, line = rx w, reads = []\<rparr>"
    using len by (simp add: attempt_inv_def)
  then have "attempt_inv sizeof_grid_msg
          (start_attempt sizeof_grid_msg (grid_survey_msg w) (rx w))"
    unfolding start_attempt_def by (rule receive_inv)
  then show ?thesis
    by (simp add: attempt_inv_def survey_iter_def grid_accumulate_def Let_def)
qed

lemma survey_attempts_grid_length:
  "length (grid_survey_msg w) = sizeof_grid_msg \<Longrightarrow>
   length (grid_survey_msg (survey_attempts n c w)) = sizeof_grid_msg"
  by (induction n) (simp_all add: survey_iter_grid_length)

lemma survey_iter_accepted:
  assumes "rx w = Ready g (Bytes frame) # rest"
    and "g < timeval MESSAGE_TIMEOUT_S MESSAGE_TIMEOUT_US"
    and "length frame = sizeof_grid_msg" and "stop_byte frame = 0x1b"
    and "length (grid_survey_msg w) = sizeof_grid_msg"
  shows "fst (survey_iter c w)"
  using assms
  by (simp add: survey_iter_def grid_accumulate_def Let_def whole_message_attempt
      sizeof_grid_msg_def)

lemma five_aborted_fail:
  "(\<forall>i<5. \<not> fst (survey_iter c (survey_attempts i c five_aborted)))
   \<and> fst (survey_iter c (survey_attempts 5 c five_aborted))"
proof -
  let ?e = "Ready 6000 (Bytes [0x8e])"
  let ?e' = "Ready 1000 (Bytes [0x8e])"
  let ?f = "Ready 6000 (Bytes (replicate 162 0 @ [0x1b]))"
  let ?f' = "Ready 1000 (Bytes (replicate 162 0 @ [0x1b]))"
  have five: "(5::nat) = Suc (Suc (Suc (Suc (Suc 0))))" by simp
  have t: "(1000::nat) < timeval MESSAGE_TIMEOUT_S MESSAGE_TIMEOUT_US"
    "(6000::nat) < timeval MESSAGE_TIMEOUT_S MESSAGE_TIMEOUT_US"
    "timeval 0 BYTE_TIMEOUT_US \<le> (6000::nat)"
    "6000 - timeval 0 BYTE_TIMEOUT_US = (1000::nat)"
    by (simp_all add: timeval_def MESSAGE_TIMEOUT_S_def BYTE_TIMEOUT_US_def)
  have r0: "rx (survey_attempts 0 c five_aborted) = [?e, ?e, ?e, ?e, ?e, ?f]"
    by (simp add: five_aborted_def idle_driver_def)
  note f0 = survey_iter_aborted(1) [OF r0 t(2) t(3), of c]
  have r1: "rx (survey_attempts (Suc 0) c five_aborted) = [?e', ?e, ?e, ?e, ?f]"
    using survey_iter_aborted(2) [OF r0 t(2) t(3), of c] by (simp add: t)
  note f1 = survey_iter_aborted(1) [OF r1 t(1) t(3), of c]
  have r2: "rx (survey_attempts (Suc (Suc 0)) c five_aborted) = [?e', ?e, ?e, ?f]"
    using survey_iter_aborted(2) [OF r1 t(1) t(3), of c] by (simp add: t)
  note f2 = survey_iter_aborted(1) [OF r2 t(1) t(3), of c]
  have r3: "rx (survey_attempts (Suc (Suc (Suc 0))) c five_aborted) = [?e', ?e, ?f]"
    using survey_iter_aborted(2) [OF r2 t(1) t(3), of c] by (simp add: t)
  note f3 = survey_iter_aborted(1) [OF r3 t(1) t(3), of c]
  have r4: "rx (survey_attempts (Suc (Suc (Suc (Suc 0)))) c five_aborted) = [?e', ?f]"
    using survey_iter_aborted(2) [OF r3 t(1) t(3), of c] by (simp add: t)
  note f4 = survey_iter_aborted(1) [OF r4 t(1) t(3), of c]
  have r5: "rx (survey_attempts (Suc (Suc (Suc (Suc (Suc 0))))) c five_aborted) = [?f']"
    using survey_iter_aborted(2) [OF r4 t(1) t(3), of c] by (simp add: t)
  have len: "length (grid_survey_msg (survey_attempts (Suc (Suc (Suc (Suc (Suc 0))))) c five_aborted))
             = sizeof_grid_msg"
    by (rule survey_attempts_grid_length)
       (simp add: five_aborted_def idle_driver_def sizeof_grid_msg_def)
  have f5: "fst (survey_iter c (survey_attempts (Suc (Suc (Suc (Suc (Suc 0))))) c five_aborted))"
    by (rule survey_iter_accepted [OF r5 t(1) _ _ len])
       (simp_all add: sizeof_grid_msg_def stop_byte_def nth_append)
  show ?thesis
    unfolding five All_less_Suc using f0 f1 f2 f3 f4 f5 by blast
qed

text \<open>
  C6. Let the first \<open>n\<close> survey attempts in a row not be accepted (nothing came, the
  message broke off, or its size or stop byte was wrong), for any \<open>n\<close>. Then the
  survey loop is not left in any of these \<open>n\<close> rounds, and it goes on from the driver
  as it is after them, which has written the grid-survey command exactly \<open>n\<close> times
  and published no grid. When attempt \<open>n + 1\<close> is accepted the loop is left with the
  command written \<open>n + 1\<close> times, each write followed by its attempt and by nothing
  else. Whenever the loop is left, it has written the command once for each of the
  \<open>n\<close> attempts that failed and once for each attempt after them.
\<close>

theorem survey_retries_without_bound:
  assumes "\<forall>i<n. \<not> fst (survey_iter cmd (survey_attempts i cmd w))"
  shows "(\<forall>m\<le>n. survey_loop m cmd w = None)
       \<and> survey_loop (n + fuel) cmd w = survey_loop fuel cmd (survey_attempts n cmd w)
       \<and> writes (survey_attempts n cmd w) = writes w @ replicate n cmd
       \<and> uwb_grid_pub (survey_attempts n cmd w) = uwb_grid_pub w
       \<and> (fst (survey_iter cmd (survey_attempts n cmd w)) \<longrightarrow>
            (\<exists>w1 cs. survey_loop (Suc n + fuel) cmd w = Some w1
                \<and> writes w1 = writes w @ replicate (Suc n) cmd
                \<and> length cs = Suc n
                \<and> journal w1 = journal w
                    @ concat (map (\<lambda>x. [Wrote cmd (exit_polls w), Attempted sizeof_grid_msg x]) cs)
                \<and> uwb_grid_pub w1 = uwb_grid_pub w))
       \<and> (survey_loop fuel cmd w = Some w2 \<longrightarrow>
            (\<exists>m. n \<le> m \<and> m < fuel \<and> writes w2 = writes w @ replicate (Suc m) cmd))"
proof (intro conjI impI allI)
  fix m assume m: "m \<le> n"
  then have "\<forall>i<m. \<not> fst (survey_iter cmd (survey_attempts i cmd w))"
    using assms by simp
  from survey_loop_retry [OF this, of 0] show "survey_loop m cmd w = None" by simp
next
  show "survey_loop (n + fuel) cmd w = survey_loop fuel cmd (survey_attempts n cmd w)"
    using assms by (rule survey_loop_retry)
  show "writes (survey_attempts n cmd w) = writes w @ replicate n cmd" by simp
  show "uwb_grid_pub (survey_attempts n cmd w) = uwb_grid_pub w" by simp
next
  assume acc: "fst (survey_iter cmd (survey_attempts n cmd w))"
  have s: "survey_loop (Suc n + fuel) cmd w = Some (survey_attempts (Suc n) cmd w)"
    using assms acc by (rule survey_loop_total) simp
  obtain cs where cs: "length cs = Suc n"
    "journal (survey_attempts (Suc n) cmd w) = journal w
       @ concat (map (\<lambda>x. [Wrote cmd (exit_polls w), Attempted sizeof_grid_msg x]) cs)"
    using survey_attempts_journal [of "Suc n" cmd w] by blast
  have "writes (survey_attempts (Suc n) cmd w) = writes w @ replicate (Suc n) cmd"
    by (simp add: replicate_append_same)
  moreover have "uwb_grid_pub (survey_attempts (Suc n) cmd w) = uwb_grid_pub w"
    by simp
  ultimately show "\<exists>w1 cs. survey_loop (Suc n + fuel) cmd w = Some w1
                \<and> writes w1 = writes w @ replicate (Suc n) cmd
                \<and> length cs = Suc n
                \<and> journal w1 = journal w
                    @ concat (map (\<lambda>x. [Wrote cmd (exit_polls w), Attempted sizeof_grid_msg x]) cs)
                \<and> uwb_grid_pub w1 = uwb_grid_pub w"
    using s cs by blast
next
  assume "survey_loop fuel cmd w = Some w2"
  from survey_loop_Some_exact [OF this] obtain m where m: "m < fuel"
    and acc: "fst (survey_iter cmd (survey_attempts m cmd w))"
    and w2: "w2 = survey_attempts (Suc m) cmd w"
    by blast
  have "n \<le> m"
  proof (rule ccontr)
    assume "\<not> n \<le> m"
    then have "m < n" by simp
    with assms acc show False by blast
  qed
  moreover have "writes w2 = writes w @ replicate (Suc m) cmd"
    unfolding w2 by (simp add: replicate_append_same)
  ultimately show "\<exists>m. n \<le> m \<and> m < fuel \<and> writes w2 = writes w @ replicate (Suc m) cmd"
    using m by blast
qed

text \<open>
  Five attempts in a row, each given up after one byte, and a sixth that reads a whole
  message: the loop is not left in five rounds, after which the command has been written
  five times, and is left in the sixth, with six writes.
\<close>

theorem survey_retries_without_bound_witness:
  "survey_loop 5 example_grid_command five_aborted = None
   \<and> writes (survey_attempts 5 example_grid_command five_aborted)
       = replicate 5 example_grid_command
   \<and> uwb_grid_pub (survey_attempts 5 example_grid_command five_aborted) = []
   \<and> (\<exists>w1. survey_loop 6 example_grid_command five_aborted = Some w1
         \<and> writes w1 = replicate 6 example_grid_command
         \<and> uwb_grid_pub w1 = [])"
proof -
  note five = five_aborted_fail [of example_grid_command]
  have start: "writes five_aborted = []" "uwb_grid_pub five_aborted = []"
    by (simp_all add: five_aborted_def idle_driver_def)
  from survey_retries_without_bound [OF five [THEN conjunct1], of 0 idle_driver]
  show ?thesis using five unfolding start by auto
qed

subsection \<open>The stop command\<close>

lemma example_run:
  "run 2 example_grid_command CMD_PURE_RANGING example_session = Some example_outcome"
  by (simp add: numeral_2_eq_2 example_session_def example_outcome_def driver_simps
      example_simps nth_append)

lemma example_accept:
  "fst (survey_iter example_grid_command (survey_attempts 0 example_grid_command example_session))"
  by (simp add: example_session_def driver_simps example_simps nth_append)



subsection \<open>The command frames\<close>

lemma command_frame_bytes:
  "command_frame (b0, b1, b2, b3) = [b0, b1, b2, b3] @ replicate 16 0"
  by (simp add: command_frame_def array_init_def)

lemma command_frame_shape:
  "length (command_frame p) = 20" "drop 4 (command_frame p) = replicate 16 0"
  by (cases p; simp add: command_frame_def array_init_def)+

text \<open>
  C9. The two commands the header declares are arrays of 20 bytes: the four bytes
  listed, \<open>8e 00 11 00\<close> to stop ranging and \<open>8e 00 11 02\<close> for pure ranging, and 16
  zero bytes for the identifier; a command that is not declared is, after the spec, its
  four bytes and 16 zero bytes. Every write hands the whole array to
  \<^verbatim>\<open>write()\<close>: a survey round writes the grid-survey command once, a ranging
  round writes nothing. A run in which a survey attempt is accepted and a poll returns
  true returns, and what it has written is the grid-survey command once per survey
  attempt, the begin-ranging command and the stop command; every frame a run has
  written is 20 bytes long and zero from its fifth byte on.
\<close>

theorem command_frames:
  "CMD_STOP_RANGING = [0x8e, 0x00, 0x11, 0x00] @ replicate 16 0
   \<and> CMD_PURE_RANGING = [0x8e, 0x00, 0x11, 0x02] @ replicate 16 0
   \<and> command_frame (b0, b1, b2, b3) = [b0, b1, b2, b3] @ replicate 16 0
   \<and> writes (send_command cmd w) = writes w @ [cmd]
   \<and> writes (snd (survey_iter cmd w)) = writes w @ [cmd]
   \<and> writes (ranging_iter w) = writes w
   \<and> ((\<forall>i<n. \<not> fst (survey_iter (command_frame pg) (survey_attempts i (command_frame pg) w)))
        \<and> fst (survey_iter (command_frame pg) (survey_attempts n (command_frame pg) w))
        \<and> exit_polls w = replicate k False @ True # ps \<and> n < fuel \<and> k < fuel
       \<longrightarrow> (\<exists>w1. run fuel (command_frame pg) (command_frame pd) w = Some w1
              \<and> writes w1 = writes w @ replicate (Suc n) (command_frame pg)
                                @ [command_frame pd, CMD_STOP_RANGING]))
   \<and> (run fuel (command_frame pg) (command_frame pd) w = Some w'
       \<longrightarrow> (\<forall>f \<in> set (drop (length (writes w)) (writes w')).
              length f = 20 \<and> drop 4 f = replicate 16 0))"
proof (intro conjI impI)
  show "CMD_STOP_RANGING = [0x8e, 0x00, 0x11, 0x00] @ replicate 16 0"
    by (simp add: CMD_STOP_RANGING_def array_init_def)
  show "CMD_PURE_RANGING = [0x8e, 0x00, 0x11, 0x02] @ replicate 16 0"
    by (simp add: CMD_PURE_RANGING_def array_init_def)
  show "command_frame (b0, b1, b2, b3) = [b0, b1, b2, b3] @ replicate 16 0"
    by (rule command_frame_bytes)
  show "writes (send_command cmd w) = writes w @ [cmd]" by simp
  show "writes (snd (survey_iter cmd w)) = writes w @ [cmd]" by simp
  show "writes (ranging_iter w) = writes w" by simp
next
  assume a: "(\<forall>i<n. \<not> fst (survey_iter (command_frame pg) (survey_attempts i (command_frame pg) w)))
        \<and> fst (survey_iter (command_frame pg) (survey_attempts n (command_frame pg) w))
        \<and> exit_polls w = replicate k False @ True # ps \<and> n < fuel \<and> k < fuel"
  let ?w1 = "send_command CMD_STOP_RANGING
       (((ranging_iter ^^ k)
           (send_command (command_frame pd)
              (sleep 1 (publish_grid (survey_attempts (Suc n) (command_frame pg) w)))))
          \<lparr>exit_polls := ps\<rparr>)"
  have "run fuel (command_frame pg) (command_frame pd) w = Some ?w1"
    using a by (intro run_total) simp_all
  moreover have "writes ?w1 = writes w @ replicate (Suc n) (command_frame pg)
                                @ [command_frame pd, CMD_STOP_RANGING]"
    by (rule run_journal(2)) simp
  ultimately show "\<exists>w1. run fuel (command_frame pg) (command_frame pd) w = Some w1
              \<and> writes w1 = writes w @ replicate (Suc n) (command_frame pg)
                                @ [command_frame pd, CMD_STOP_RANGING]"
    by blast
next
  assume r: "run fuel (command_frame pg) (command_frame pd) w = Some w'"
  from run_Some [OF r] obtain m j qs where
    w': "w' = send_command CMD_STOP_RANGING
       (((ranging_iter ^^ j)
           (send_command (command_frame pd)
              (sleep 1 (publish_grid (survey_attempts (Suc m) (command_frame pg) w)))))
          \<lparr>exit_polls := qs\<rparr>)"
    by blast
  have d: "drop (length (writes w)) (writes w')
        = replicate (Suc m) (command_frame pg) @ [command_frame pd, CMD_STOP_RANGING]"
    using run_journal(2) [OF w'] by simp
  have stop: "length CMD_STOP_RANGING = 20" "drop 4 CMD_STOP_RANGING = replicate 16 0"
    by (simp_all add: CMD_STOP_RANGING_def array_init_def)
  show "\<forall>f \<in> set (drop (length (writes w)) (writes w')).
              length f = 20 \<and> drop 4 f = replicate 16 0"
    unfolding d using stop command_frame_shape by auto
qed

text \<open>
  The example session, with \<open>8e 00 11 01\<close> and \<open>8e 00 11 02\<close> for the four bytes of
  the two commands that are not declared.
\<close>

theorem command_frames_witness:
  "run 2 (command_frame (0x8e, 0x00, 0x11, 0x01)) (command_frame (0x8e, 0x00, 0x11, 0x02))
       example_session = Some example_outcome
   \<and> writes example_outcome =
       [[0x8e, 0x00, 0x11, 0x01] @ replicate 16 0,
        [0x8e, 0x00, 0x11, 0x02] @ replicate 16 0,
        [0x8e, 0x00, 0x11, 0x00] @ replicate 16 0]"
proof -
  have g: "command_frame (0x8e, 0x00, 0x11, 0x01) = example_grid_command"
    by (simp add: command_frame_def example_grid_command_def)
  have d: "command_frame (0x8e, 0x00, 0x11, 0x02) = CMD_PURE_RANGING"
    by (simp add: command_frame_def CMD_PURE_RANGING_def)
  have polls: "exit_polls example_session = replicate 1 False @ True # [True]"
    by (simp add: example_session_def idle_driver_def)
  note inst = command_frames [where w = example_session and n = 0 and k = 1
      and ps = "[True]" and fuel = 2 and pg = "(0x8e, 0x00, 0x11, 0x01)"
      and pd = "(0x8e, 0x00, 0x11, 0x02)", THEN conjunct2, THEN conjunct2,
      THEN conjunct2, THEN conjunct2, THEN conjunct2, THEN conjunct2, THEN conjunct1]
  have "\<exists>w1. run 2 (command_frame (0x8e, 0x00, 0x11, 0x01)) (command_frame (0x8e, 0x00, 0x11, 0x02))
       example_session = Some w1
     \<and> writes w1 = writes example_session
         @ replicate (Suc 0) (command_frame (0x8e, 0x00, 0x11, 0x01))
         @ [command_frame (0x8e, 0x00, 0x11, 0x02), CMD_STOP_RANGING]"
    using inst example_accept polls by (simp add: g)
  then show ?thesis
    using example_run
    by (auto simp: g d example_session_def idle_driver_def command_frame_bytes [symmetric]
        CMD_STOP_RANGING_def CMD_PURE_RANGING_def example_grid_command_def array_init_def)
qed

subsection \<open>Construction\<close>

lemma parse_options_error_flag:
  "error_flag (parse_options g opts s) =
     (error_flag s \<or> (\<exists>ch \<in> fst ` set opts. ch \<noteq> CHR ''d'' \<and> ch \<noteq> CHR ''b''))"
  by (induction g opts s rule: parse_options.induct) auto

lemma parse_options_device_name:
  "(device_name (parse_options g opts s) = None) =
     (device_name s = None \<and> CHR ''d'' \<notin> fst ` set opts)"
  by (induction g opts s rule: parse_options.induct) auto

lemma parse_options_baudrate:
  "CHR ''b'' \<notin> fst ` set opts \<Longrightarrow> baudrate (parse_options g opts s) = baudrate s"
  by (induction g opts s rule: parse_options.induct) auto

lemma instantiate_None_iff:
  "(instantiate g opts = None) =
     ((\<exists>ch \<in> fst ` set opts. ch \<noteq> CHR ''d'' \<and> ch \<noteq> CHR ''b'')
      \<or> CHR ''d'' \<notin> fst ` set opts
      \<or> baudrate (parse_options g opts \<lparr>device_name = None, error_flag = False, baudrate = 0\<rparr>) = 0)"
  by (auto simp: instantiate_def Let_def parse_options_error_flag parse_options_device_name)

text \<open>
  C10. \<^verbatim>\<open>instantiate\<close> returns \<^verbatim>\<open>nullptr\<close> exactly when an option other than
  \<open>d\<close> and \<open>b\<close> was met, or there was no \<open>d\<close> option, or \<^verbatim>\<open>baudrate\<close> is 0
  after the options; it is 0 in particular when there was no \<open>b\<close> option. When a
  driver is constructed there was a \<open>b\<close> option, \<^verbatim>\<open>baudrate\<close> is not 0, and the
  speed is \<^verbatim>\<open>int_to_speed(baudrate)\<close>, which is the default \<^verbatim>\<open>B115200\<close> exactly
  for 115200 itself and for the values outside 9600, 19200, 38400 and 57600: so the
  default never stands in for a baudrate that was not given.
\<close>

theorem construction_fails:
  "(instantiate g opts = None) =
     ((\<exists>ch \<in> fst ` set opts. ch \<noteq> CHR ''d'' \<and> ch \<noteq> CHR ''b'')
      \<or> CHR ''d'' \<notin> fst ` set opts
      \<or> baudrate (parse_options g opts \<lparr>device_name = None, error_flag = False, baudrate = 0\<rparr>) = 0)
   \<and> (CHR ''b'' \<notin> fst ` set opts \<longrightarrow> instantiate g opts = None)
   \<and> (instantiate g opts = Some (dev, speed) \<longrightarrow>
        CHR ''b'' \<in> fst ` set opts
        \<and> baudrate (parse_options g opts \<lparr>device_name = None, error_flag = False, baudrate = 0\<rparr>) \<noteq> 0
        \<and> speed = int_to_speed
            (baudrate (parse_options g opts \<lparr>device_name = None, error_flag = False, baudrate = 0\<rparr>)))
   \<and> (int_to_speed b = DEFAULT_BAUD) = (b = 115200 \<or> b \<notin> {9600, 19200, 38400, 57600})
   \<and> DEFAULT_BAUD = B115200"
proof (intro conjI impI)
  show "(instantiate g opts = None) =
     ((\<exists>ch \<in> fst ` set opts. ch \<noteq> CHR ''d'' \<and> ch \<noteq> CHR ''b'')
      \<or> CHR ''d'' \<notin> fst ` set opts
      \<or> baudrate (parse_options g opts \<lparr>device_name = None, error_flag = False, baudrate = 0\<rparr>) = 0)"
    by (rule instantiate_None_iff)
  show "(int_to_speed b = DEFAULT_BAUD) = (b = 115200 \<or> b \<notin> {9600, 19200, 38400, 57600})"
    by (simp add: int_to_speed_def DEFAULT_BAUD_def)
  show "DEFAULT_BAUD = B115200" by (simp add: DEFAULT_BAUD_def)
next
  assume "CHR ''b'' \<notin> fst ` set opts"
  then show "instantiate g opts = None"
    by (simp add: instantiate_None_iff parse_options_baudrate)
next
  assume some: "instantiate g opts = Some (dev, speed)"
  then have not_none: "instantiate g opts \<noteq> None" by simp
  then show nz: "baudrate (parse_options g opts \<lparr>device_name = None, error_flag = False, baudrate = 0\<rparr>) \<noteq> 0"
    by (simp add: instantiate_None_iff)
  from nz show "CHR ''b'' \<in> fst ` set opts"
    using parse_options_baudrate [of opts g "\<lparr>device_name = None, error_flag = False, baudrate = 0\<rparr>"]
    by auto
  from some show "speed = int_to_speed
            (baudrate (parse_options g opts \<lparr>device_name = None, error_flag = False, baudrate = 0\<rparr>))"
    by (auto simp: instantiate_def Let_def split: if_splits)
qed

text \<open>
  No baudrate; a baudrate of 0; no device; an option that is not known; a supported
  baudrate; a baudrate that is not supported.
\<close>

theorem construction_fails_witness:
  "instantiate decimal_baud [(CHR ''d'', ''/dev/ttyS2'')] = None
   \<and> instantiate decimal_baud [(CHR ''d'', ''/dev/ttyS2''), (CHR ''b'', ''0'')] = None
   \<and> instantiate decimal_baud [(CHR ''b'', ''57600'')] = None
   \<and> instantiate decimal_baud
        [(CHR ''d'', ''/dev/ttyS2''), (CHR ''b'', ''57600''), (CHR ''?'', [])] = None
   \<and> instantiate decimal_baud [(CHR ''d'', ''/dev/ttyS2''), (CHR ''b'', ''57600'')]
       = Some (Some ''/dev/ttyS2'', B57600)
   \<and> instantiate decimal_baud [(CHR ''d'', ''/dev/ttyS2''), (CHR ''b'', ''250000'')]
       = Some (Some ''/dev/ttyS2'', B115200)"
  using construction_fails [of decimal_baud "[(CHR ''d'', ''/dev/ttyS2'')]"]
  by (simp add: instantiate_def decimal_baud_def int_to_speed_def DEFAULT_BAUD_def)

end
